theory Spec2Isabelle
  imports Complex_Main
begin

section \<open>The thumbnail editor: data model\<close>

text \<open>
  The component \<open>SingleThumbnailEditor\<close> keeps a fabric canvas behind the ref
  \<open>fabricCanvasRef\<close> and fills it from an optional content descriptor. JavaScript numbers
  are modelled as exact rationals (there is no NaN and no rounding here); strings are
  \<open>string\<close>; an optional property is an \<open>option\<close>, \<open>None\<close> being \<open>undefined\<close>.
  The running code computes in binary64. An arithmetic expression is therefore written
  with the operations of the source in the order of the source, and what is stated of a
  computed coordinate is stated as that expression, so that it does not rest on a law
  (associativity, cancellation) that holds of the rationals only; the one section that
  uses such laws says so in its title.
\<close>

definition THUMBNAIL_WIDTH :: rat where
  "THUMBNAIL_WIDTH = 1280"

definition THUMBNAIL_HEIGHT :: rat where
  "THUMBNAIL_HEIGHT = 720"

subsection \<open>JavaScript operators on optional values\<close>

text \<open>\<open>w || d\<close> on a number: 0 is falsy.\<close>

definition nz :: "rat \<Rightarrow> rat \<Rightarrow> rat" where
  "nz w d = (if w = 0 then d else w)"

text \<open>\<open>x || d\<close> on an optional number: \<open>undefined\<close> and 0 give the default.\<close>

definition num_or :: "rat option \<Rightarrow> rat \<Rightarrow> rat" where
  "num_or x d = (case x of None \<Rightarrow> d | Some v \<Rightarrow> nz v d)"

text \<open>\<open>x || d\<close> on an optional string: \<open>undefined\<close> and the empty string give the default.\<close>

definition str_or :: "string option \<Rightarrow> string \<Rightarrow> string" where
  "str_or x d = (case x of None \<Rightarrow> d | Some v \<Rightarrow> if v = [] then d else v)"

text \<open>
  \<open>x ?? d\<close>: only \<open>undefined\<close> gives the default. The same function serves for
  \<open>x || d\<close> where the type of \<open>x\<close> is a union of non-empty string literals
  (\<open>textAlign\<close>, \<open>originX\<close>), none of which is falsy.
\<close>

definition nullish :: "'a option \<Rightarrow> 'a \<Rightarrow> 'a" where
  "nullish x d = (case x of None \<Rightarrow> d | Some v \<Rightarrow> v)"

text \<open>The truthiness tests \<open>if (s)\<close> on an optional string and an optional boolean.\<close>

definition truthy_str :: "string option \<Rightarrow> bool" where
  "truthy_str x = (case x of None \<Rightarrow> False | Some v \<Rightarrow> v \<noteq> [])"

definition truthy_bool :: "bool option \<Rightarrow> bool" where
  "truthy_bool x = (case x of None \<Rightarrow> False | Some b \<Rightarrow> b)"

text \<open>\<open>s.includes(sub)\<close>: \<open>sub\<close> occurs in \<open>s\<close> as a contiguous run.\<close>

fun str_includes :: "string \<Rightarrow> string \<Rightarrow> bool" where
  "str_includes [] sub = (sub = [])"
| "str_includes (c # cs) sub = (take (length sub) (c # cs) = sub \<or> str_includes cs sub)"

subsection \<open>The content descriptor\<close>

datatype text_align = AlignLeft | AlignCenter | AlignRight | AlignJustify

datatype origin_x = OriginLeft | OriginCenter | OriginRight

datatype origin_y = OriginTop | OriginMiddle | OriginBottom

text \<open>One entry of \<open>InitialContent.texts\<close>.\<close>

record text_config =
  tc_content :: string
  tc_fontSize :: "rat option"
  tc_fontFamily :: "string option"
  tc_color :: "string option"
  tc_top :: "rat option"
  tc_left :: "rat option"
  tc_angle :: "rat option"
  tc_textAlign :: "text_align option"
  tc_originX :: "origin_x option"
  tc_fontWeight :: "string option"
  tc_stroke :: "string option"
  tc_strokeWidth :: "rat option"
  tc_width :: "rat option"

record InitialContent =
  texts :: "text_config list option"
  logoUrl :: "string option"
  logoUrls :: "string list option"
  logoBorder :: "bool option"
  backgroundColor :: "string option"
  logoSizeMultiplier :: "rat option"
  logoTop :: "rat option"
  youtubeLogoUrl :: "string option"
  showArrow :: "bool option"
  youtubeLogoSizeMultiplier :: "rat option"
  youtubeLogoTop :: "rat option"
  backgroundImageUrl :: "string option"
  showNineBall :: "bool option"
  nineBallSize :: "rat option"

subsection \<open>Scene objects\<close>

text \<open>
  The properties this component gives to the fabric objects it creates. A property of an
  image that the code sets only in some paths is an \<open>option\<close>; \<open>None\<close> means the code
  has not set it.
\<close>

record textbox =
  tb_text :: string
  tb_left :: rat
  tb_top :: rat
  tb_fontSize :: rat
  tb_fontFamily :: string
  tb_fill :: string
  tb_fontWeight :: string
  tb_stroke :: string
  tb_strokeWidth :: rat
  tb_textAlign :: text_align
  tb_originX :: origin_x
  tb_originY :: origin_y
  tb_width :: rat
  tb_angle :: rat
  tb_charSpacing :: rat
  tb_editable :: bool

text \<open>An image: \<open>im_width\<close> and \<open>im_height\<close> are the natural size the load reported.\<close>

record image_obj =
  im_width :: rat
  im_height :: rat
  im_scale :: rat
  im_left :: "rat option"
  im_top :: "rat option"
  im_originX :: "origin_x option"
  im_originY :: "origin_y option"
  im_stroke :: "string option"
  im_strokeWidth :: "rat option"
  im_selectable :: "bool option"
  im_evented :: "bool option"

record circle_obj =
  ci_radius :: rat
  ci_left :: rat
  ci_top :: rat
  ci_fill :: string
  ci_stroke :: string
  ci_strokeWidth :: rat
  ci_originX :: origin_x
  ci_originY :: origin_y

record text_obj =
  tx_text :: string
  tx_left :: rat
  tx_top :: rat
  tx_fontSize :: rat
  tx_fontFamily :: string
  tx_fontWeight :: string
  tx_fill :: string
  tx_originX :: origin_x
  tx_originY :: origin_y
  tx_textAlign :: text_align

record triangle_obj =
  tr_width :: rat
  tr_height :: rat
  tr_left :: rat
  tr_top :: rat
  tr_fill :: string
  tr_originX :: origin_x
  tr_originY :: origin_y
  tr_angle :: rat

datatype fabric_object =
    Textbox textbox
  | FabricImage image_obj
  | Circle circle_obj
  | FabricText text_obj
  | Triangle triangle_obj

text \<open>The value of \<open>obj.type\<close>.\<close>

fun obj_type :: "fabric_object \<Rightarrow> string" where
  "obj_type (Textbox _) = ''textbox''"
| "obj_type (FabricImage _) = ''image''"
| "obj_type (Circle _) = ''circle''"
| "obj_type (FabricText _) = ''text''"
| "obj_type (Triangle _) = ''triangle''"

text \<open>The natural size of a loaded image, what \<open>Image.fromURL\<close> resolves to.\<close>

record loaded_image =
  li_width :: rat
  li_height :: rat

subsection \<open>The canvas and the variables of one initialization callback\<close>

text \<open>
  Objects are JavaScript references: \<open>heap\<close> holds every object created so far and a
  reference is an index into it, so that \<open>img.set\<close> on an object already on the canvas
  is seen through every alias. \<open>cv_objects\<close> is the canvas's object list, back-most
  first. \<open>backgroundImageRef\<close>, \<open>loadedLogos\<close> and \<open>logoImages\<close> are the local
  variables that the completion handlers of one initialization callback share;
  \<open>logoImages\<close> is a JavaScript array whose holes are \<open>None\<close>.
\<close>

record state =
  heap :: "fabric_object list"
  cv_objects :: "nat list"
  cv_backgroundColor :: string
  cv_activeObject :: "nat option"
  cv_width :: rat
  cv_height :: rat
  cv_cssWidth :: "rat option"
  cv_cssHeight :: "rat option"
  cv_disposed :: bool
  backgroundImageRef :: "nat option"
  loadedLogos :: nat
  logoImages :: "(nat \<times> rat) option list"

text \<open>\<open>new Canvas(el, {width, height, backgroundColor})\<close>: an empty canvas.\<close>

definition new_Canvas :: "string \<Rightarrow> state" where
  "new_Canvas bgColor =
     \<lparr>heap = [], cv_objects = [], cv_backgroundColor = bgColor, cv_activeObject = None,
      cv_width = THUMBNAIL_WIDTH, cv_height = THUMBNAIL_HEIGHT,
      cv_cssWidth = None, cv_cssHeight = None, cv_disposed = False,
      backgroundImageRef = None, loadedLogos = 0, logoImages = []\<rparr>"

text \<open>Creating an object (\<open>new Textbox(...)\<close>, a resolved image): a fresh reference.\<close>

definition alloc :: "fabric_object \<Rightarrow> state \<Rightarrow> nat \<times> state" where
  "alloc obj s = (length (heap s), s\<lparr>heap := heap s @ [obj]\<rparr>)"

subsection \<open>The operations of the canvas library used by the component\<close>

text \<open>
  Modelled from the spec: the fabric canvas is an external library, not part of the
  repository. The spec describes the canvas as an ordered (z-index) sequence of scene
  objects in insertion order unless explicitly reordered; \<open>add\<close> appends on top,
  \<open>remove\<close> takes the object out (and drops the selection when it was the selected
  object), \<open>sendObjectToBack\<close> and \<open>bringObjectToFront\<close> move one object to the back
  or to the front, \<open>clear\<close> empties the canvas, its selection and its background.
\<close>

definition add :: "nat \<Rightarrow> state \<Rightarrow> state" where
  "add r s = s\<lparr>cv_objects := cv_objects s @ [r]\<rparr>"

definition remove :: "nat \<Rightarrow> state \<Rightarrow> state" where
  "remove r s =
     s\<lparr>cv_objects := remove1 r (cv_objects s),
       cv_activeObject := (if cv_activeObject s = Some r then None else cv_activeObject s)\<rparr>"

definition sendToBack :: "nat \<Rightarrow> nat list \<Rightarrow> nat list" where
  "sendToBack r objs =
     (if objs \<noteq> [] \<and> hd objs = r then objs else r # remove1 r objs)"

definition sendObjectToBack :: "nat \<Rightarrow> state \<Rightarrow> state" where
  "sendObjectToBack r s = s\<lparr>cv_objects := sendToBack r (cv_objects s)\<rparr>"

definition bringToFront :: "nat \<Rightarrow> nat list \<Rightarrow> nat list" where
  "bringToFront r objs =
     (if objs \<noteq> [] \<and> last objs = r then objs else remove1 r objs @ [r])"

definition bringObjectToFront :: "nat \<Rightarrow> state \<Rightarrow> state" where
  "bringObjectToFront r s = s\<lparr>cv_objects := bringToFront r (cv_objects s)\<rparr>"

definition clear :: "state \<Rightarrow> state" where
  "clear s = s\<lparr>cv_objects := [], cv_activeObject := None, cv_backgroundColor := []\<rparr>"

text \<open>\<open>canvas.dispose()\<close>: only the fact that the canvas was disposed is kept.\<close>

definition dispose :: "state \<Rightarrow> state" where
  "dispose s = s\<lparr>cv_disposed := True\<rparr>"

section \<open>Interactive operations\<close>

text \<open>
  The handlers start with \<open>if (!fabricCanvasRef.current) return\<close>; the ref is a
  \<open>state option\<close> and the handler maps it.
\<close>

text \<open>\<open>handleDelete\<close>: remove the selected object, if there is one.\<close>

definition deleteActive :: "state \<Rightarrow> state" where
  "deleteActive s = (case cv_activeObject s of None \<Rightarrow> s | Some r \<Rightarrow> remove r s)"

definition handleDelete :: "state option \<Rightarrow> state option" where
  "handleDelete fabricCanvasRef = map_option deleteActive fabricCanvasRef"

text \<open>The fields of a \<open>KeyboardEvent\<close> that exist for the handler to read.\<close>

record key_event =
  key :: string
  ctrlKey :: bool
  metaKey :: bool
  shiftKey :: bool
  altKey :: bool

text \<open>\<open>handleKeyDown\<close>, registered on the window; it closes over the effect's canvas.\<close>

definition handleKeyDown :: "key_event \<Rightarrow> state \<Rightarrow> state" where
  "handleKeyDown e canvas =
     (if (key e = ''Delete'' \<or> key e = ''Backspace'') \<and> \<not> ctrlKey e \<and> \<not> metaKey e
      then deleteActive canvas
      else canvas)"

text \<open>\<open>handleClear\<close>.\<close>

definition handleClear :: "state option \<Rightarrow> state option" where
  "handleClear fabricCanvasRef =
     map_option (\<lambda>s. (clear s)\<lparr>cv_backgroundColor := ''#FFFFFF''\<rparr>) fabricCanvasRef"

section \<open>The layout resolver\<close>

subsection \<open>Text entries\<close>

text \<open>The options of \<open>new Textbox(textConfig.content, {...})\<close>.\<close>

definition textObject :: "text_config \<Rightarrow> textbox" where
  "textObject textConfig =
     \<lparr>tb_text = tc_content textConfig,
      tb_left = nullish (tc_left textConfig) (THUMBNAIL_WIDTH / 2 - 20),
      tb_top = num_or (tc_top textConfig) (THUMBNAIL_HEIGHT / 2),
      tb_fontSize = num_or (tc_fontSize textConfig) 60,
      tb_fontFamily = str_or (tc_fontFamily textConfig) ''Arial'',
      tb_fill = str_or (tc_color textConfig) ''#FFFFFF'',
      tb_fontWeight = str_or (tc_fontWeight textConfig) ''bold'',
      tb_stroke = str_or (tc_stroke textConfig) ''#000000'',
      tb_strokeWidth = nullish (tc_strokeWidth textConfig) 3,
      tb_textAlign = nullish (tc_textAlign textConfig) AlignCenter,
      tb_originX = nullish (tc_originX textConfig) OriginCenter,
      tb_originY = OriginMiddle,
      tb_width = num_or (tc_width textConfig) (THUMBNAIL_WIDTH * (8 / 10)),
      tb_angle = num_or (tc_angle textConfig) 0,
      tb_charSpacing = 0,
      tb_editable = True\<rparr>"

text \<open>Create an object and add it to the canvas.\<close>

definition addNew :: "fabric_object \<Rightarrow> state \<Rightarrow> state" where
  "addNew obj s = (case alloc obj s of (r, s') \<Rightarrow> add r s')"

text \<open>\<open>initialContent.texts.forEach(...)\<close>.\<close>

fun addTexts :: "text_config list \<Rightarrow> state \<Rightarrow> state" where
  "addTexts [] s = s"
| "addTexts (textConfig # rest) s = addTexts rest (addNew (Textbox (textObject textConfig)) s)"

subsection \<open>Images\<close>

text \<open>\<open>Math.min(maxLogoWidth / (img.width || 1), maxLogoWidth / (img.height || 1))\<close>.\<close>

definition fitScale :: "rat \<Rightarrow> loaded_image \<Rightarrow> rat" where
  "fitScale maxLogoWidth img =
     min (maxLogoWidth / nz (li_width img) 1) (maxLogoWidth / nz (li_height img) 1)"

text \<open>A freshly resolved image after \<open>img.scale(scale)\<close>, nothing else set.\<close>

definition scaledImage :: "loaded_image \<Rightarrow> rat \<Rightarrow> image_obj" where
  "scaledImage img scale =
     \<lparr>im_width = li_width img, im_height = li_height img, im_scale = scale,
      im_left = None, im_top = None, im_originX = None, im_originY = None,
      im_stroke = None, im_strokeWidth = None, im_selectable = None, im_evented = None\<rparr>"

text \<open>\<open>if (initialContent.logoBorder) img.set({stroke: "#000000", strokeWidth: 2})\<close>.\<close>

definition withBorder :: "InitialContent \<Rightarrow> image_obj \<Rightarrow> image_obj" where
  "withBorder initialContent p =
     (if truthy_bool (logoBorder initialContent)
      then p\<lparr>im_stroke := Some ''#000000'', im_strokeWidth := Some 2\<rparr>
      else p)"

text \<open>
  \<open>obj.set({...})\<close> on an image that is already in the heap. Every reference the
  component keeps points at an image it created; for any other reference the heap is
  left as it is.
\<close>

definition img_set :: "(image_obj \<Rightarrow> image_obj) \<Rightarrow> nat \<Rightarrow> fabric_object list \<Rightarrow> fabric_object list" where
  "img_set f r h =
     (if r < length h
      then (case h ! r of FabricImage p \<Rightarrow> h[r := FabricImage (f p)] | _ \<Rightarrow> h)
      else h)"

text \<open>
  \<open>if (backgroundImageRef && fabricCanvasRef.current)
  fabricCanvasRef.current.sendObjectToBack(backgroundImageRef)\<close>.
\<close>

definition keepBackgroundBehind :: "state \<Rightarrow> state" where
  "keepBackgroundBehind s =
     (case backgroundImageRef s of None \<Rightarrow> s | Some bg \<Rightarrow> sendObjectToBack bg s)"

subsection \<open>The background image\<close>

definition backgroundImage :: "loaded_image \<Rightarrow> image_obj" where
  "backgroundImage bgImg =
     (let scale = max (THUMBNAIL_WIDTH / nz (li_width bgImg) 1)
                      (THUMBNAIL_HEIGHT / nz (li_height bgImg) 1)
      in (scaledImage bgImg scale)
           \<lparr>im_left := Some 0, im_top := Some 0,
            im_selectable := Some False, im_evented := Some False\<rparr>)"

text \<open>The \<open>then\<close> handler of the background load.\<close>

definition onBackgroundLoaded :: "loaded_image \<Rightarrow> state \<Rightarrow> state" where
  "onBackgroundLoaded bgImg s =
     (case alloc (FabricImage (backgroundImage bgImg)) s of
        (r, s1) \<Rightarrow> sendObjectToBack r ((add r s1)\<lparr>backgroundImageRef := Some r\<rparr>))"

subsection \<open>Several logos side by side\<close>

text \<open>\<open>logoImages[index] = v\<close>: JavaScript extends the array, leaving holes.\<close>

definition js_set :: "'a option list \<Rightarrow> nat \<Rightarrow> 'a \<Rightarrow> 'a option list" where
  "js_set xs i v =
     (if i < length xs then xs[i := Some v]
      else xs @ replicate (i - length xs) None @ [Some v])"

text \<open>The width a logo may take: the APA logo 25% bigger, the Barako logo 5% smaller.\<close>

definition multiMaxLogoWidth :: "InitialContent \<Rightarrow> string \<Rightarrow> rat" where
  "multiMaxLogoWidth initialContent url =
     (let baseLogoWidth = 150;
          logoMultiplier = num_or (logoSizeMultiplier initialContent) 1
      in if str_includes url ''APA.png'' then baseLogoWidth * (5 / 4) * logoMultiplier
         else if str_includes url ''barako.png'' then baseLogoWidth * (19 / 20) * logoMultiplier
         else baseLogoWidth * logoMultiplier)"

text \<open>\<open>const scaledWidth = (img.width || 0) * scale\<close>.\<close>

definition multiScaledWidth :: "InitialContent \<Rightarrow> string \<Rightarrow> loaded_image \<Rightarrow> rat" where
  "multiScaledWidth initialContent url img =
     nz (li_width img) 0 * fitScale (multiMaxLogoWidth initialContent url) img"

text \<open>\<open>logoImages.reduce((sum, logo) => sum + logo.width, 0)\<close>; holes are skipped.\<close>

fun sumWidths :: "(nat \<times> rat) option list \<Rightarrow> rat \<Rightarrow> rat" where
  "sumWidths [] acc = acc"
| "sumWidths (None # rest) acc = sumWidths rest acc"
| "sumWidths (Some (r, w) # rest) acc = sumWidths rest (acc + w)"

text \<open>
  The \<open>forEach\<close> that places the logos from left to right, \<open>logoSpacing\<close> apart:
  \<open>left: currentX + logoData.width / 2\<close>, then
  \<open>currentX += logoData.width + logoSpacing\<close>.
\<close>

fun positionLogos :: "(nat \<times> rat) option list \<Rightarrow> rat \<Rightarrow> fabric_object list \<Rightarrow> fabric_object list" where
  "positionLogos [] currentX h = h"
| "positionLogos (None # rest) currentX h = positionLogos rest currentX h"
| "positionLogos (Some (r, w) # rest) currentX h =
     positionLogos rest (currentX + (w + 30))
       (img_set (\<lambda>p. p\<lparr>im_left := Some (currentX + w / 2), im_top := Some 100,
                        im_originX := Some OriginCenter, im_originY := Some OriginTop\<rparr>) r h)"

definition totalWidth :: "(nat \<times> rat) option list \<Rightarrow> nat \<Rightarrow> rat" where
  "totalWidth imgs totalLogos = sumWidths imgs 0 + (of_nat totalLogos - 1) * 30"

text \<open>The initial value of \<open>currentX\<close>.\<close>

definition startX :: "(nat \<times> rat) option list \<Rightarrow> nat \<Rightarrow> rat" where
  "startX imgs totalLogos = (THUMBNAIL_WIDTH - totalWidth imgs totalLogos) / 2 - 20"

definition layoutLogos :: "nat \<Rightarrow> state \<Rightarrow> state" where
  "layoutLogos totalLogos s =
     (let currentX = startX (logoImages s) totalLogos
      in keepBackgroundBehind (s\<lparr>heap := positionLogos (logoImages s) currentX (heap s)\<rparr>))"

text \<open>
  The \<open>then\<close> handler of the load of \<open>logoUrls[index]\<close>, up to
  \<open>loadedLogos++\<close>: the image is scaled, recorded in \<open>logoImages\<close> and added to
  the canvas.
\<close>

definition logoAdded :: "InitialContent \<Rightarrow> string \<Rightarrow> nat \<Rightarrow> loaded_image \<Rightarrow> state \<Rightarrow> state" where
  "logoAdded initialContent url index img s =
     (let scale = fitScale (multiMaxLogoWidth initialContent url) img;
          scaledWidth = nz (li_width img) 0 * scale
      in case alloc (FabricImage (withBorder initialContent (scaledImage img scale))) s of
           (r, s1) \<Rightarrow>
             (let s2 = add r (s1\<lparr>logoImages := js_set (logoImages s1) index (r, scaledWidth)\<rparr>)
              in s2\<lparr>loadedLogos := loadedLogos s2 + 1\<rparr>))"

text \<open>
  The whole handler: once all logos are loaded they are placed side by side;
  \<open>totalLogos\<close> is \<open>logoUrls.length\<close>.
\<close>

definition onLogoLoaded :: "InitialContent \<Rightarrow> nat \<Rightarrow> string \<Rightarrow> nat \<Rightarrow> loaded_image \<Rightarrow> state \<Rightarrow> state" where
  "onLogoLoaded initialContent totalLogos url index img s =
     (let s3 = logoAdded initialContent url index img s
      in if loadedLogos s3 = totalLogos then layoutLogos totalLogos s3 else s3)"

subsection \<open>A single logo\<close>

definition singleLogoScale :: "InitialContent \<Rightarrow> loaded_image \<Rightarrow> rat" where
  "singleLogoScale initialContent img =
     (let baseLogoWidth = 200;
          multiplier = num_or (logoSizeMultiplier initialContent) 1
      in fitScale (baseLogoWidth * multiplier) img)"

text \<open>
  The variable \<open>logoTop\<close> of the handler; \<open>texts[0].top || THUMBNAIL_HEIGHT / 2\<close> reads
  the first entry.
\<close>

definition singleLogoTop :: "InitialContent \<Rightarrow> loaded_image \<Rightarrow> rat" where
  "singleLogoTop initialContent img =
     (case logoTop initialContent of
        Some t \<Rightarrow> t
      | None \<Rightarrow>
          (case texts initialContent of
             Some (first # rest) \<Rightarrow>
               (let firstTextTop = num_or (tc_top first) (THUMBNAIL_HEIGHT / 2);
                    scaledHeight = nz (li_height img) 0 * singleLogoScale initialContent img
                in firstTextTop - scaledHeight - 30)
           | _ \<Rightarrow> 100))"

definition singleLogoImage :: "InitialContent \<Rightarrow> loaded_image \<Rightarrow> image_obj" where
  "singleLogoImage initialContent img =
     withBorder initialContent
       ((scaledImage img (singleLogoScale initialContent img))
          \<lparr>im_left := Some (THUMBNAIL_WIDTH / 2 - 20),
           im_top := Some (singleLogoTop initialContent img),
           im_originX := Some OriginCenter, im_originY := Some OriginTop\<rparr>)"

definition onSingleLogoLoaded :: "InitialContent \<Rightarrow> loaded_image \<Rightarrow> state \<Rightarrow> state" where
  "onSingleLogoLoaded initialContent img s =
     keepBackgroundBehind (addNew (FabricImage (singleLogoImage initialContent img)) s)"

subsection \<open>The YouTube logo and its arrow\<close>

definition youtubeScale :: "InitialContent \<Rightarrow> loaded_image \<Rightarrow> rat" where
  "youtubeScale initialContent img =
     (let baseLogoWidth = 300;
          multiplier = num_or (youtubeLogoSizeMultiplier initialContent) 1
      in fitScale (baseLogoWidth * multiplier) img)"

definition youtubeScaledHeight :: "InitialContent \<Rightarrow> loaded_image \<Rightarrow> rat" where
  "youtubeScaledHeight initialContent img =
     nz (li_height img) 0 * youtubeScale initialContent img"

definition youtubeLogoTopPos :: "InitialContent \<Rightarrow> loaded_image \<Rightarrow> rat" where
  "youtubeLogoTopPos initialContent img =
     nullish (youtubeLogoTop initialContent) 70 + youtubeScaledHeight initialContent img / 2"

definition youtubeImage :: "InitialContent \<Rightarrow> loaded_image \<Rightarrow> image_obj" where
  "youtubeImage initialContent img =
     (scaledImage img (youtubeScale initialContent img))
       \<lparr>im_left := Some (THUMBNAIL_WIDTH / 2 - 20),
        im_top := Some (youtubeLogoTopPos initialContent img),
        im_originX := Some OriginCenter, im_originY := Some OriginMiddle\<rparr>"

definition arrow :: "InitialContent \<Rightarrow> loaded_image \<Rightarrow> triangle_obj" where
  "arrow initialContent img =
     \<lparr>tr_width = 40, tr_height = 40,
      tr_left = THUMBNAIL_WIDTH / 2 - 20,
      tr_top = youtubeLogoTopPos initialContent img
                 + youtubeScaledHeight initialContent img / 2 + 30,
      tr_fill = ''#FF0000'', tr_originX = OriginCenter, tr_originY = OriginMiddle,
      tr_angle = 180\<rparr>"

definition onYoutubeLoaded :: "InitialContent \<Rightarrow> loaded_image \<Rightarrow> state \<Rightarrow> state" where
  "onYoutubeLoaded initialContent img s =
     (let s1 = addNew (FabricImage (youtubeImage initialContent img)) s;
          s2 = (if truthy_bool (showArrow initialContent)
                then addNew (Triangle (arrow initialContent img)) s1 else s1)
      in keepBackgroundBehind s2)"

subsection \<open>The nine ball\<close>

definition ballRadius :: "InitialContent \<Rightarrow> rat" where
  "ballRadius initialContent = num_or (nineBallSize initialContent) 250 / 2"

definition ballTop :: "InitialContent \<Rightarrow> rat" where
  "ballTop initialContent =
     (case logoTop initialContent of
        None \<Rightarrow> THUMBNAIL_HEIGHT / 2
      | Some t \<Rightarrow>
          (let baseLogoHeight = 200;
               multiplier = num_or (logoSizeMultiplier initialContent) 1;
               estimatedLogoHeight = baseLogoHeight * multiplier
           in t + estimatedLogoHeight + 21 / 4 + ballRadius initialContent + 15 + 10))"

definition ball :: "InitialContent \<Rightarrow> circle_obj" where
  "ball initialContent =
     \<lparr>ci_radius = ballRadius initialContent,
      ci_left = THUMBNAIL_WIDTH / 2 - 20,
      ci_top = ballTop initialContent,
      ci_fill = ''#FFFFFF'', ci_stroke = ''#000000'', ci_strokeWidth = 3,
      ci_originX = OriginCenter, ci_originY = OriginMiddle\<rparr>"

definition numberText :: "InitialContent \<Rightarrow> text_obj" where
  "numberText initialContent =
     \<lparr>tx_text = ''9'',
      tx_left = THUMBNAIL_WIDTH / 2 - 20,
      tx_top = ballTop initialContent,
      tx_fontSize = ballRadius initialContent * (8 / 10) * (13 / 10) * (12 / 10),
      tx_fontFamily = ''Arial'', tx_fontWeight = ''bold'', tx_fill = ''#FFD700'',
      tx_originX = OriginCenter, tx_originY = OriginMiddle, tx_textAlign = AlignCenter\<rparr>"

text \<open>\<open>obj.type === "textbox" || obj.type === "i-text"\<close>, read through the heap.\<close>

definition isTextObj :: "fabric_object \<Rightarrow> bool" where
  "isTextObj obj = (obj_type obj = ''textbox'' \<or> obj_type obj = ''i-text'')"

definition isTextRef :: "fabric_object list \<Rightarrow> nat \<Rightarrow> bool" where
  "isTextRef h r = (r < length h \<and> isTextObj (h ! r))"

text \<open>
  \<open>getObjects()\<close> returns a copy of the object list; the \<open>forEach\<close> over it brings
  each text box to the front in turn. The loop changes nothing but the object list, so it
  is written on the list, with \<open>bringToFront\<close> for \<open>bringObjectToFront\<close>.
\<close>

fun bringTextsToFront :: "fabric_object list \<Rightarrow> nat list \<Rightarrow> nat list \<Rightarrow> nat list" where
  "bringTextsToFront h [] objs = objs"
| "bringTextsToFront h (obj # rest) objs =
     bringTextsToFront h rest (if isTextRef h obj then bringToFront obj objs else objs)"

definition createNineBall :: "InitialContent \<Rightarrow> state \<Rightarrow> state" where
  "createNineBall initialContent s =
     (let s1 = addNew (Circle (ball initialContent)) s;
          s2 = addNew (FabricText (numberText initialContent)) s1;
          objects = cv_objects s2;
          s3 = s2\<lparr>cv_objects := bringTextsToFront (heap s2) objects (cv_objects s2)\<rparr>
      in keepBackgroundBehind s3)"

subsection \<open>The initialization callback and the completions of its loads\<close>

text \<open>\<open>initialContent.logoUrls && initialContent.logoUrls.length > 0\<close>.\<close>

definition hasLogoUrls :: "InitialContent \<Rightarrow> bool" where
  "hasLogoUrls initialContent =
     (case logoUrls initialContent of None \<Rightarrow> False | Some urls \<Rightarrow> urls \<noteq> [])"

text \<open>
  The synchronous part of the callback that the effect schedules: fresh local
  variables, the texts, and the nine ball when it does not wait for a logo.
\<close>

definition initPass :: "InitialContent \<Rightarrow> state \<Rightarrow> state" where
  "initPass initialContent s =
     (let s0 = s\<lparr>backgroundImageRef := None, loadedLogos := 0, logoImages := []\<rparr>;
          s1 = (case texts initialContent of None \<Rightarrow> s0 | Some ts \<Rightarrow> addTexts ts s0)
      in if truthy_bool (showNineBall initialContent) \<and> \<not> truthy_str (logoUrl initialContent)
         then createNineBall initialContent s1 else s1)"

text \<open>The image loads the callback starts, in the order it starts them.\<close>

datatype load = BgLoad | LogoLoad nat | SingleLogoLoad | YoutubeLoad | NineBallLogoLoad

definition loads :: "InitialContent \<Rightarrow> load list" where
  "loads initialContent =
     (if truthy_str (backgroundImageUrl initialContent) then [BgLoad] else [])
     @ (if hasLogoUrls initialContent
        then map LogoLoad [0 ..< length (nullish (logoUrls initialContent) [])]
        else if truthy_str (logoUrl initialContent) then [SingleLogoLoad] else [])
     @ (if truthy_str (youtubeLogoUrl initialContent) then [YoutubeLoad] else [])
     @ (if truthy_bool (showNineBall initialContent) \<and> truthy_str (logoUrl initialContent)
        then [NineBallLogoLoad] else [])"

text \<open>
  A load settles with the image (\<open>Some\<close>) or is rejected (\<open>None\<close>); a rejection is
  logged and changes nothing, except that the nine ball is created either way. The
  liveness test \<open>if (!fabricCanvasRef.current) return\<close> of the handlers always passes:
  the ref is assigned in the effect and never reset.
\<close>

fun complete :: "InitialContent \<Rightarrow> load \<times> loaded_image option \<Rightarrow> state \<Rightarrow> state" where
  "complete initialContent (BgLoad, Some img) s = onBackgroundLoaded img s"
| "complete initialContent (LogoLoad index, Some img) s =
     (let urls = nullish (logoUrls initialContent) []
      in if index < length urls
         then onLogoLoaded initialContent (length urls) (urls ! index) index img s
         else s)"
| "complete initialContent (SingleLogoLoad, Some img) s = onSingleLogoLoaded initialContent img s"
| "complete initialContent (YoutubeLoad, Some img) s = onYoutubeLoaded initialContent img s"
| "complete initialContent (NineBallLogoLoad, outcome) s = createNineBall initialContent s"
| "complete initialContent (l, None) s = s"

text \<open>The completions of a schedule, run in its order.\<close>

fun settle :: "InitialContent \<Rightarrow> (load \<times> loaded_image option) list \<Rightarrow> state \<Rightarrow> state" where
  "settle initialContent [] s = s"
| "settle initialContent (ev # rest) s = settle initialContent rest (complete initialContent ev s)"

text \<open>
  A schedule settles the callback's loads when every load it started completes exactly
  once, in any order.
\<close>

definition settles :: "InitialContent \<Rightarrow> (load \<times> loaded_image option) list \<Rightarrow> bool" where
  "settles initialContent sched =
     (distinct (map fst sched) \<and> set (map fst sched) = set (loads initialContent))"

section \<open>Display scaling and export\<close>

text \<open>
  \<open>handleResize\<close>, given the container's \<open>clientWidth\<close>: \<open>setDimensions\<close> is called
  with \<open>cssOnly\<close>, so only the CSS size of the canvas element changes.
\<close>

definition handleResize :: "rat \<Rightarrow> state \<Rightarrow> state" where
  "handleResize clientWidth canvas =
     (let maxWidth = clientWidth - 32;
          scale = min (maxWidth / THUMBNAIL_WIDTH) 1
      in canvas\<lparr>cv_cssWidth := Some (THUMBNAIL_WIDTH * scale),
                 cv_cssHeight := Some (THUMBNAIL_HEIGHT * scale)\<rparr>)"

datatype image_format = PNG | JPEG

text \<open>
  Modelled from the spec: \<open>toDataURL\<close> belongs to the canvas library. The pixels are not
  modelled; a data URL is kept as the options it was made with and the size of the raster,
  which is the canvas's coordinate space times the multiplier (no resizing at export).
\<close>

record data_url =
  du_format :: image_format
  du_quality :: rat
  du_multiplier :: rat
  du_width :: rat
  du_height :: rat

definition toDataURL :: "image_format \<Rightarrow> rat \<Rightarrow> rat \<Rightarrow> state \<Rightarrow> data_url" where
  "toDataURL fmt quality multiplier canvas =
     \<lparr>du_format = fmt, du_quality = quality, du_multiplier = multiplier,
      du_width = cv_width canvas * multiplier, du_height = cv_height canvas * multiplier\<rparr>"

text \<open>\<open>downloadImage(dataURL, filename)\<close>: the link that is clicked.\<close>

record download =
  dl_href :: data_url
  dl_filename :: string

definition handleExportPNG :: "string \<Rightarrow> state option \<Rightarrow> download option" where
  "handleExportPNG canvasId fabricCanvasRef =
     map_option (\<lambda>canvas. \<lparr>dl_href = toDataURL PNG 1 1 canvas,
                            dl_filename = ''thumbnail-'' @ canvasId @ ''.png''\<rparr>) fabricCanvasRef"

definition handleExportJPEG :: "string \<Rightarrow> state option \<Rightarrow> download option" where
  "handleExportJPEG canvasId fabricCanvasRef =
     map_option (\<lambda>canvas. \<lparr>dl_href = toDataURL JPEG (95 / 100) 1 canvas,
                            dl_filename = ''thumbnail-'' @ canvasId @ ''.jpg''\<rparr>) fabricCanvasRef"

section \<open>The effect: mounting, cleanup and the initialization timer\<close>

text \<open>
  The refs of the component and the number of initialization callbacks that
  \<open>setTimeout(..., 200)\<close> has scheduled and that have not run yet. The cleanup does
  not cancel them. The canvas element is taken to be in the document
  (\<open>canvasRef.current\<close> is set), and of each callback the synchronous part is
  followed: the image loads it starts are the subject of \<open>complete\<close> above.
\<close>

record component =
  fabricCanvasRef :: "state option"
  initializedRef :: bool
  initTimers :: nat

definition mountComponent :: component where
  "mountComponent = \<lparr>fabricCanvasRef = None, initializedRef = False, initTimers = 0\<rparr>"

text \<open>The body of the effect, up to the scheduling of the initialization.\<close>

definition effect :: "InitialContent option \<Rightarrow> component \<Rightarrow> component" where
  "effect initialContent c =
     (let bgColor = str_or (case initialContent of None \<Rightarrow> None | Some ic \<Rightarrow> backgroundColor ic)
                      ''#FFFFFF'';
          c1 = c\<lparr>fabricCanvasRef := Some (new_Canvas bgColor)\<rparr>
      in if initialContent \<noteq> None \<and> \<not> initializedRef c1
         then c1\<lparr>initializedRef := True, initTimers := initTimers c1 + 1\<rparr>
         else c1)"

text \<open>
  The function the effect returns. Its \<open>canvas\<close> is the one the ref holds: only the
  effect assigns the ref, and React runs a cleanup between two runs of the effect.
\<close>

definition cleanup :: "component \<Rightarrow> component" where
  "cleanup c = c\<lparr>fabricCanvasRef := map_option dispose (fabricCanvasRef c),
                 initializedRef := False\<rparr>"

text \<open>
  One scheduled callback runs: \<open>if (!fabricCanvasRef.current) return\<close>, then the
  initialization pass on whatever canvas the ref holds now.
\<close>

definition initTimer :: "InitialContent \<Rightarrow> component \<Rightarrow> component" where
  "initTimer initialContent c =
     (if initTimers c = 0 then c
      else c\<lparr>initTimers := initTimers c - 1,
             fabricCanvasRef := map_option (initPass initialContent) (fabricCanvasRef c)\<rparr>)"

datatype lifecycle_event = EffectRun | Cleanup | InitTimer

fun lifecycle :: "InitialContent option \<Rightarrow> lifecycle_event \<Rightarrow> component \<Rightarrow> component" where
  "lifecycle initialContent EffectRun c = effect initialContent c"
| "lifecycle initialContent Cleanup c = cleanup c"
| "lifecycle initialContent InitTimer c =
     (case initialContent of None \<Rightarrow> c | Some ic \<Rightarrow> initTimer ic c)"

fun run :: "InitialContent option \<Rightarrow> lifecycle_event list \<Rightarrow> component \<Rightarrow> component" where
  "run initialContent [] c = c"
| "run initialContent (ev # rest) c = run initialContent rest (lifecycle initialContent ev c)"

text \<open>
  The event orders React produces: effect and cleanup alternate, starting with the
  effect; a timer may run at any moment. The flag says whether the effect is active.
\<close>

fun react_order :: "bool \<Rightarrow> lifecycle_event list \<Rightarrow> bool" where
  "react_order active [] = True"
| "react_order active (EffectRun # rest) = (\<not> active \<and> react_order True rest)"
| "react_order active (Cleanup # rest) = (active \<and> react_order False rest)"
| "react_order active (InitTimer # rest) = react_order active rest"

text \<open>The objects on the canvas, back-most first, read through the heap.\<close>

definition scene :: "state \<Rightarrow> fabric_object list" where
  "scene s = map (\<lambda>r. heap s ! r) (cv_objects s)"

section \<open>Invariants\<close>

subsection \<open>Well-formed states\<close>

text \<open>
  What holds of every state the component reaches: an object is on the canvas once, every
  reference is allocated, and \<open>backgroundImageRef\<close>, once assigned, is an image.
\<close>

definition wf_state :: "state \<Rightarrow> bool" where
  "wf_state s =
     (distinct (cv_objects s) \<and> list_all (\<lambda>r. r < length (heap s)) (cv_objects s)
      \<and> (case backgroundImageRef s of
            None \<Rightarrow> True
          | Some bg \<Rightarrow> bg < length (heap s) \<and> obj_type (heap s ! bg) = ''image''))"

text \<open>
  Once the background image is known, it is the back-most object; and no entry of
  \<open>logoImages\<close> is the background image or an unallocated reference.
\<close>

definition bgBehind :: "state \<Rightarrow> bool" where
  "bgBehind s =
     (case backgroundImageRef s of
        None \<Rightarrow> True
      | Some bg \<Rightarrow> cv_objects s \<noteq> [] \<and> hd (cv_objects s) = bg)"

definition logosOk :: "state \<Rightarrow> bool" where
  "logosOk s =
     list_all (\<lambda>e. case e of
                 None \<Rightarrow> True
               | Some (r, w) \<Rightarrow> r < length (heap s) \<and> backgroundImageRef s \<noteq> Some r)
       (logoImages s)"

subsection \<open>The logo layout\<close>

text \<open>
  \<open>W i\<close> is the scaled width of logo \<open>i\<close>, \<open>k\<close> the number of logos and \<open>D\<close> the set
  of logos whose load has completed. Each of them has its entry in \<open>logoImages\<close>, which
  names an image on the canvas of that scaled width, and \<open>loadedLogos\<close> counts them.
\<close>

definition logosBase :: "(nat \<Rightarrow> rat) \<Rightarrow> nat \<Rightarrow> nat set \<Rightarrow> state \<Rightarrow> bool" where
  "logosBase W k D s =
     (D \<subseteq> {..<k} \<and> length (logoImages s) \<le> k \<and> loadedLogos s = card D
      \<and> (\<forall>i<length (logoImages s). logoImages s ! i \<noteq> None \<longrightarrow> i \<in> D)
      \<and> (\<forall>i\<in>D. i < length (logoImages s)
            \<and> (\<exists>r p. logoImages s ! i = Some (r, W i) \<and> r < length (heap s)
                  \<and> r \<in> set (cv_objects s) \<and> heap s ! r = FabricImage p
                  \<and> im_width p * im_scale p = W i))
      \<and> (\<forall>i\<in>D. \<forall>j\<in>D. i \<noteq> j \<longrightarrow>
            fst (the (logoImages s ! i)) \<noteq> fst (the (logoImages s ! j))))"

text \<open>
  The positions of the logos, written with the operations of the handler in the order in
  which it performs them, so that they read the same in the arithmetic of the running
  code. \<open>groupWidth\<close> is the value of \<open>totalWidth\<close>: the widths added one after
  the other to 0, then the spacings added; \<open>groupStart\<close> is the first value of
  \<open>currentX\<close>.
\<close>

definition groupWidth :: "(nat \<Rightarrow> rat) \<Rightarrow> nat \<Rightarrow> rat" where
  "groupWidth W k = foldl (\<lambda>acc i. acc + W i) 0 [0..<k] + (of_nat k - 1) * 30"

definition groupStart :: "(nat \<Rightarrow> rat) \<Rightarrow> nat \<Rightarrow> rat" where
  "groupStart W k = (THUMBNAIL_WIDTH - groupWidth W k) / 2 - 20"

text \<open>
  The value of \<open>currentX\<close> when logo \<open>i\<close> is placed, which is where its left edge is
  meant to be: \<open>currentX\<close> has been advanced by \<open>W j + 30\<close> for each logo \<open>j\<close>
  before it.
\<close>

definition logoEdge :: "(nat \<Rightarrow> rat) \<Rightarrow> nat \<Rightarrow> nat \<Rightarrow> rat" where
  "logoEdge W k i = foldl (\<lambda>x j. x + (W j + 30)) (groupStart W k) [0..<i]"

text \<open>The scaled widths of the logos of a descriptor, given the image each load resolves to.\<close>

definition scaledWidths :: "InitialContent \<Rightarrow> (nat \<Rightarrow> loaded_image) \<Rightarrow> nat \<Rightarrow> rat" where
  "scaledWidths initialContent imgs i =
     multiScaledWidth initialContent (nullish (logoUrls initialContent) [] ! i) (imgs i)"

definition logosPlaced :: "(nat \<Rightarrow> rat) \<Rightarrow> nat \<Rightarrow> state \<Rightarrow> bool" where
  "logosPlaced W k s =
     (\<forall>i<k. i < length (logoImages s)
        \<and> (\<exists>r p. logoImages s ! i = Some (r, W i) \<and> r < length (heap s)
              \<and> heap s ! r = FabricImage p
              \<and> im_left p = Some (logoEdge W k i + W i / 2)
              \<and> im_top p = Some 100
              \<and> im_originX p = Some OriginCenter \<and> im_originY p = Some OriginTop))"

section \<open>The descriptors of the tabs\<close>

definition noContent :: InitialContent where
  "noContent =
     \<lparr>texts = None, logoUrl = None, logoUrls = None, logoBorder = None,
      backgroundColor = None, logoSizeMultiplier = None, logoTop = None,
      youtubeLogoUrl = None, showArrow = None, youtubeLogoSizeMultiplier = None,
      youtubeLogoTop = None, backgroundImageUrl = None, showNineBall = None,
      nineBallSize = None\<rparr>"

definition textEntry :: "string \<Rightarrow> text_config" where
  "textEntry c =
     \<lparr>tc_content = c, tc_fontSize = None, tc_fontFamily = None, tc_color = None,
      tc_top = None, tc_left = None, tc_angle = None, tc_textAlign = None,
      tc_originX = None, tc_fontWeight = None, tc_stroke = None, tc_strokeWidth = None,
      tc_width = None\<rparr>"

text \<open>Tab 2 of \<open>TabbedThumbnailEditor\<close>: one logo, no \<open>logoTop\<close>.\<close>

definition tab2 :: InitialContent where
  "tab2 = noContent
     \<lparr>texts := Some
        [(textEntry ''Billiards in Punggol'')
           \<lparr>tc_fontSize := Some 100, tc_fontFamily := Some ''Arial'', tc_color := Some ''#000000'',
            tc_fontWeight := Some ''bold'', tc_stroke := Some ''#FFFFFF'',
            tc_strokeWidth := Some 4, tc_width := Some 994,
            tc_top := Some (THUMBNAIL_HEIGHT / 2 + 80)\<rparr>,
         (textEntry ''7th November 2025 | 8:00PM'')
           \<lparr>tc_fontSize := Some 48, tc_fontFamily := Some ''Arial'', tc_color := Some ''#000000'',
            tc_top := Some (THUMBNAIL_HEIGHT / 2 + 230)\<rparr>],
      logoUrl := Some ''/barako.png''\<rparr>"

text \<open>Tab 4: two logos side by side.\<close>

definition tab4 :: InitialContent where
  "tab4 = noContent
     \<lparr>texts := Some
        [(textEntry ''APA Monday League @ D' Skunks Lounge'')
           \<lparr>tc_fontSize := Some 100, tc_fontFamily := Some ''Arial'', tc_color := Some ''#FFFFFF'',
            tc_fontWeight := Some ''bold'', tc_stroke := Some ''#000000'',
            tc_strokeWidth := Some 4, tc_width := Some 994,
            tc_top := Some (THUMBNAIL_HEIGHT / 2 + 80)\<rparr>,
         (textEntry ''10th November 2025'')
           \<lparr>tc_fontSize := Some 48, tc_fontFamily := Some ''Arial'', tc_color := Some ''#FFFFFF'',
            tc_top := Some (THUMBNAIL_HEIGHT / 2 + 230)\<rparr>],
      logoUrls := Some [''/barako.png'', ''/APA.png''],
      backgroundColor := Some ''#0066CC''\<rparr>"

text \<open>Tab 6: three logos over a background image.\<close>

definition tab6 :: InitialContent where
  "tab6 = noContent
     \<lparr>texts := Some
        [(textEntry ''PBS Cup @ ASA'')
           \<lparr>tc_fontSize := Some 100, tc_fontFamily := Some ''Arial'', tc_color := Some ''#4a3a6e'',
            tc_stroke := Some ''#E6E6FA'', tc_strokeWidth := Some 3, tc_width := Some 994,
            tc_top := Some (THUMBNAIL_HEIGHT / 2 + 80)\<rparr>,
         (textEntry ''22nd November 2025'')
           \<lparr>tc_fontSize := Some 48, tc_fontFamily := Some ''Arial'', tc_color := Some ''#4a3a6e'',
            tc_stroke := Some ''#E6E6FA'', tc_strokeWidth := Some 3,
            tc_top := Some (THUMBNAIL_HEIGHT / 2 + 230)\<rparr>],
      logoUrls := Some [''/PBS.png'', ''/fromOwen.png'', ''/Asa.png''],
      backgroundImageUrl := Some ''/dark-purple-pattern.svg'',
      logoSizeMultiplier := Some (3 / 2)\<rparr>"

text \<open>Tab 7: one logo and the nine ball.\<close>

definition tab7 :: InitialContent where
  "tab7 = noContent
     \<lparr>texts := Some
        [(textEntry ''PBS Tour @ Snooker Zone'')
           \<lparr>tc_fontSize := Some 100, tc_fontFamily := Some ''Arial Black'',
            tc_color := Some ''#000000'', tc_fontWeight := Some ''bold'',
            tc_stroke := Some ''#FFFFFF'', tc_strokeWidth := Some 4, tc_width := Some 994,
            tc_top := Some (THUMBNAIL_HEIGHT / 2 + 85)\<rparr>,
         (textEntry ''29th November 2025'')
           \<lparr>tc_fontSize := Some 48, tc_fontFamily := Some ''Arial'', tc_color := Some ''#FFFFFF'',
            tc_top := Some (THUMBNAIL_HEIGHT / 2 + 240)\<rparr>],
      logoUrl := Some ''/fromOwen.png'',
      logoTop := Some 50,
      logoSizeMultiplier := Some (13 / 10),
      showNineBall := Some True,
      nineBallSize := Some 200,
      backgroundColor := Some ''#191970''\<rparr>"

section \<open>Concrete inputs\<close>

text \<open>A canvas with one text box, which is selected.\<close>

definition oneSelected :: state where
  "oneSelected =
     (addNew (Textbox (textObject (textEntry ''x''))) (new_Canvas ''#FFFFFF''))
       \<lparr>cv_activeObject := Some 0\<rparr>"

definition shiftDelete :: key_event where
  "shiftDelete =
     \<lparr>key = ''Delete'', ctrlKey = False, metaKey = False, shiftKey = True, altKey = False\<rparr>"

definition ctrlDelete :: key_event where
  "ctrlDelete =
     \<lparr>key = ''Delete'', ctrlKey = True, metaKey = False, shiftKey = False, altKey = False\<rparr>"

text \<open>A logo of 200 by 100 pixels and a background of 1920 by 1080.\<close>

definition logo200x100 :: loaded_image where
  "logo200x100 = \<lparr>li_width = 200, li_height = 100\<rparr>"

definition bg1920x1080 :: loaded_image where
  "bg1920x1080 = \<lparr>li_width = 1920, li_height = 1080\<rparr>"

text \<open>One logo, no \<open>logoTop\<close>, and a first text entry whose \<open>top\<close> is 0.\<close>

definition topZero :: InitialContent where
  "topZero = noContent
     \<lparr>texts := Some [(textEntry ''x'')\<lparr>tc_top := Some 0\<rparr>],
      logoUrl := Some ''/barako.png''\<rparr>"

text \<open>
  Tab 7 given a background image, after the initialization pass and the load of the
  background.
\<close>

definition tab7bg :: InitialContent where
  "tab7bg = tab7\<lparr>backgroundImageUrl := Some ''/dark-purple-pattern.svg''\<rparr>"

definition nineBallInput :: state where
  "nineBallInput =
     complete tab7bg (BgLoad, Some bg1920x1080) (initPass tab7bg (new_Canvas ''#191970''))"

text \<open>A nine ball with no \<open>logoTop\<close>, and one with a logo size multiplier of 0.\<close>

definition nineBallNoTop :: InitialContent where
  "nineBallNoTop = noContent\<lparr>showNineBall := Some True\<rparr>"

definition nineBallZeroMult :: InitialContent where
  "nineBallZeroMult =
     noContent\<lparr>showNineBall := Some True, logoTop := Some 50, logoSizeMultiplier := Some 0\<rparr>"

text \<open>An order of completion for tab 4: the second logo arrives first.\<close>

definition tab4Schedule :: "(load \<times> loaded_image option) list" where
  "tab4Schedule = [(LogoLoad 1, Some logo200x100), (LogoLoad 0, Some logo200x100)]"

text \<open>
  An order of completion for tab 6: the background image arrives after two of the three
  logos.
\<close>

definition tab6Schedule :: "(load \<times> loaded_image option) list" where
  "tab6Schedule =
     [(LogoLoad 2, Some logo200x100), (LogoLoad 0, Some logo200x100),
      (BgLoad, Some bg1920x1080), (LogoLoad 1, Some logo200x100)]"



text \<open>
  The effect runs, is cleaned up and runs again before the first 200 ms timer fires (what
  React's development double invocation of effects does, and what a change of
  \<open>canvasId\<close> within 200 ms does: the component and its refs stay the same); then both
  timers fire.
\<close>

definition remountTrace :: "lifecycle_event list" where
  "remountTrace = [EffectRun, Cleanup, EffectRun, InitTimer, InitTimer]"

section \<open>Properties of the interactive operations\<close>

lemma str_includes_mid: "str_includes (pre @ sub @ suf) sub"
proof (induction pre)
  case Nil
  show ?case
  proof (cases "sub @ suf")
    case Nil
    then show ?thesis by simp
  next
    case (Cons a l)
    have "take (length sub) (sub @ suf) = sub" by simp
    then have "take (length sub) (a # l) = sub" by (simp only: Cons)
    then have "str_includes (a # l) sub" by simp
    then show ?thesis by (simp add: Cons)
  qed
next
  case (Cons c pre)
  then show ?case by simp
qed

text \<open>
  C10: the clear operation empties the object list and sets the background colour to
  \<open>#FFFFFF\<close>, whatever the canvas held, also for the canvas the effect made from a
  descriptor with a background colour of its own.
\<close>

theorem clear_resets_to_white:
  "map_option cv_objects (handleClear (Some s)) = Some []
   \<and> map_option cv_backgroundColor (handleClear (Some s)) = Some ''#FFFFFF''
   \<and> map_option cv_objects (handleClear (fabricCanvasRef (effect (Some ic) c))) = Some []
   \<and> map_option cv_backgroundColor (handleClear (fabricCanvasRef (effect (Some ic) c)))
       = Some ''#FFFFFF''"
  by (simp add: handleClear_def clear_def effect_def Let_def)

text \<open>
  C6, as amended: with no selected object the delete button and the Delete or Backspace
  key leave the canvas as it is; a keydown while Ctrl or Meta is held removes nothing,
  even when an object is selected; and with neither of the two held, Delete or Backspace
  removes the selected object, whether or not Shift or Alt is held.
\<close>

theorem delete_guards:
  "(cv_activeObject s = None \<longrightarrow> handleDelete (Some s) = Some s \<and> handleKeyDown e s = s)
   \<and> (ctrlKey e \<or> metaKey e \<longrightarrow> handleKeyDown e s = s)
   \<and> ((key e = ''Delete'' \<or> key e = ''Backspace'') \<and> \<not> ctrlKey e \<and> \<not> metaKey e
        \<and> cv_activeObject s = Some r \<longrightarrow>
      handleKeyDown e s = remove r s \<and> cv_objects (remove r s) = remove1 r (cv_objects s))"
  by (simp add: handleDelete_def handleKeyDown_def deleteActive_def remove_def)

theorem delete_guards_witness:
  "cv_activeObject (new_Canvas ''#FFFFFF'') = None
   \<and> handleDelete (Some (new_Canvas ''#FFFFFF'')) = Some (new_Canvas ''#FFFFFF'')
   \<and> handleKeyDown shiftDelete (new_Canvas ''#FFFFFF'') = new_Canvas ''#FFFFFF''
   \<and> ctrlKey ctrlDelete
   \<and> cv_activeObject oneSelected = Some 0
   \<and> cv_objects (handleKeyDown ctrlDelete oneSelected) = [0]
   \<and> key shiftDelete = ''Delete'' \<and> \<not> ctrlKey shiftDelete \<and> \<not> metaKey shiftDelete
   \<and> handleKeyDown shiftDelete oneSelected = remove 0 oneSelected"
  using delete_guards [where s = "new_Canvas ''#FFFFFF''" and e = shiftDelete]
    delete_guards [where s = oneSelected and e = ctrlDelete]
    delete_guards [where s = oneSelected and e = shiftDelete and r = 0]
  by (simp add: oneSelected_def ctrlDelete_def shiftDelete_def addNew_def alloc_def add_def
      new_Canvas_def)

text \<open>
  C6, as stated, fails: Shift is a modifier key, and Shift+Delete removes the selected
  object.
\<close>

theorem shift_delete_removes:
  "cv_objects oneSelected = [0] \<and> cv_activeObject oneSelected = Some 0
   \<and> key shiftDelete = ''Delete'' \<and> shiftKey shiftDelete
   \<and> cv_objects (handleKeyDown shiftDelete oneSelected) = []"
  by (simp add: oneSelected_def shiftDelete_def handleKeyDown_def deleteActive_def remove_def
      addNew_def alloc_def add_def new_Canvas_def)

text \<open>
  C8: whatever the on-screen CSS size, the PNG export asks for format PNG and the JPEG
  export for JPEG at quality 0.95, both with multiplier 1 over the 1280 by 720
  coordinate space, and the file name of the download contains the canvas identifier.
\<close>

theorem export_full_resolution:
  assumes "cv_width s = THUMBNAIL_WIDTH" and "cv_height s = THUMBNAIL_HEIGHT"
  shows "handleExportPNG canvasId (Some (handleResize clientWidth s))
           = Some \<lparr>dl_href = \<lparr>du_format = PNG, du_quality = 1, du_multiplier = 1,
                              du_width = 1280, du_height = 720\<rparr>,
                   dl_filename = ''thumbnail-'' @ canvasId @ ''.png''\<rparr>
       \<and> handleExportJPEG canvasId (Some (handleResize clientWidth s))
           = Some \<lparr>dl_href = \<lparr>du_format = JPEG, du_quality = 95 / 100, du_multiplier = 1,
                              du_width = 1280, du_height = 720\<rparr>,
                   dl_filename = ''thumbnail-'' @ canvasId @ ''.jpg''\<rparr>
       \<and> str_includes (''thumbnail-'' @ canvasId @ ''.png'') canvasId
       \<and> str_includes (''thumbnail-'' @ canvasId @ ''.jpg'') canvasId"
  using assms str_includes_mid [of "''thumbnail-''" canvasId]
  by (simp add: handleExportPNG_def handleExportJPEG_def toDataURL_def handleResize_def
      Let_def THUMBNAIL_WIDTH_def THUMBNAIL_HEIGHT_def)

theorem export_full_resolution_witness:
  "cv_width (new_Canvas ''#FFFFFF'') = THUMBNAIL_WIDTH
   \<and> cv_height (new_Canvas ''#FFFFFF'') = THUMBNAIL_HEIGHT
   \<and> cv_cssWidth (handleResize 832 (new_Canvas ''#FFFFFF'')) = Some 800
   \<and> handleExportPNG ''canvas-1'' (Some (handleResize 832 (new_Canvas ''#FFFFFF'')))
       = Some \<lparr>dl_href = \<lparr>du_format = PNG, du_quality = 1, du_multiplier = 1,
                          du_width = 1280, du_height = 720\<rparr>,
               dl_filename = ''thumbnail-canvas-1.png''\<rparr>
   \<and> handleExportJPEG ''canvas-1'' (Some (handleResize 832 (new_Canvas ''#FFFFFF'')))
       = Some \<lparr>dl_href = \<lparr>du_format = JPEG, du_quality = 95 / 100, du_multiplier = 1,
                          du_width = 1280, du_height = 720\<rparr>,
               dl_filename = ''thumbnail-canvas-1.jpg''\<rparr>"
  using export_full_resolution [of "new_Canvas ''#FFFFFF''" "''canvas-1''" 832]
  by (simp add: new_Canvas_def handleResize_def Let_def THUMBNAIL_WIDTH_def THUMBNAIL_HEIGHT_def)

section \<open>Properties of the placement of single objects\<close>

lemma addNew_fields [simp]:
  "heap (addNew obj s) = heap s @ [obj]"
  "cv_objects (addNew obj s) = cv_objects s @ [length (heap s)]"
  "backgroundImageRef (addNew obj s) = backgroundImageRef s"
  "logoImages (addNew obj s) = logoImages s"
  "loadedLogos (addNew obj s) = loadedLogos s"
  by (simp_all add: addNew_def alloc_def add_def)

lemma set_sendToBack: "set (sendToBack r objs) = insert r (set objs)"
  by (cases objs) (auto simp: sendToBack_def set_remove1_eq dest: notin_set_remove1)

lemma keepBackgroundBehind_fields [simp]:
  "heap (keepBackgroundBehind s) = heap s"
  "backgroundImageRef (keepBackgroundBehind s) = backgroundImageRef s"
  "logoImages (keepBackgroundBehind s) = logoImages s"
  "loadedLogos (keepBackgroundBehind s) = loadedLogos s"
  by (simp_all add: keepBackgroundBehind_def sendObjectToBack_def split: option.splits)

lemma keepBackgroundBehind_keeps:
  "r \<in> set (cv_objects s) \<Longrightarrow> r \<in> set (cv_objects (keepBackgroundBehind s))"
  by (simp add: keepBackgroundBehind_def sendObjectToBack_def set_sendToBack split: option.splits)

lemma im_withBorder [simp]:
  "im_left (withBorder ic p) = im_left p"
  "im_top (withBorder ic p) = im_top p"
  "im_originX (withBorder ic p) = im_originX p"
  "im_originY (withBorder ic p) = im_originY p"
  "im_width (withBorder ic p) = im_width p"
  "im_height (withBorder ic p) = im_height p"
  "im_scale (withBorder ic p) = im_scale p"
  by (simp_all add: withBorder_def)

text \<open>
  C4, as amended: for a descriptor with one logo, no \<open>logoTop\<close> and a non-empty texts
  list, the logo that the load handler adds has as its top the first entry's top, or 360
  when that entry has no top or its top is 0, minus the logo's scaled height minus 30.
\<close>

theorem single_logo_top:
  assumes "\<not> hasLogoUrls ic" and "truthy_str (logoUrl ic)"
    and "logoTop ic = None" and "texts ic = Some (first # rest)"
  shows "SingleLogoLoad \<in> set (loads ic)
    \<and> length (heap s) \<in> set (cv_objects (complete ic (SingleLogoLoad, Some img) s))
    \<and> heap (complete ic (SingleLogoLoad, Some img) s) ! length (heap s)
        = FabricImage (singleLogoImage ic img)
    \<and> im_top (singleLogoImage ic img)
        = Some ((case tc_top first of None \<Rightarrow> 360 | Some v \<Rightarrow> if v = 0 then 360 else v)
                - im_height (singleLogoImage ic img) * im_scale (singleLogoImage ic img) - 30)"
proof -
  have a: "SingleLogoLoad \<in> set (loads ic)"
    using assms(1,2) by (simp add: loads_def)
  have b: "length (heap s) \<in> set (cv_objects (complete ic (SingleLogoLoad, Some img) s))"
    by (simp add: onSingleLogoLoaded_def keepBackgroundBehind_keeps)
  have c: "heap (complete ic (SingleLogoLoad, Some img) s) ! length (heap s)
        = FabricImage (singleLogoImage ic img)"
    by (simp add: onSingleLogoLoaded_def)
  have d: "im_top (singleLogoImage ic img)
        = Some ((case tc_top first of None \<Rightarrow> 360 | Some v \<Rightarrow> if v = 0 then 360 else v)
                - im_height (singleLogoImage ic img) * im_scale (singleLogoImage ic img) - 30)"
    using assms(3,4)
    by (simp add: singleLogoImage_def singleLogoTop_def scaledImage_def num_or_def nz_def
        THUMBNAIL_HEIGHT_def Let_def split: option.splits)
  from a b c d show ?thesis by blast
qed

theorem single_logo_top_witness:
  "\<not> hasLogoUrls tab2 \<and> truthy_str (logoUrl tab2) \<and> logoTop tab2 = None
   \<and> SingleLogoLoad \<in> set (loads tab2)
   \<and> im_scale (singleLogoImage tab2 logo200x100) = 1
   \<and> im_top (singleLogoImage tab2 logo200x100) = Some (440 - 100 * 1 - 30)"
proof -
  have h: "\<not> hasLogoUrls tab2" "truthy_str (logoUrl tab2)" "logoTop tab2 = None"
    by (simp_all add: tab2_def noContent_def hasLogoUrls_def truthy_str_def)
  have t: "texts tab2 = Some (hd (the (texts tab2)) # tl (the (texts tab2)))"
    by (simp add: tab2_def noContent_def)
  have top: "tc_top (hd (the (texts tab2))) = Some 440"
    by (simp add: tab2_def noContent_def textEntry_def THUMBNAIL_HEIGHT_def)
  have sc: "im_scale (singleLogoImage tab2 logo200x100) = 1"
    "im_height (singleLogoImage tab2 logo200x100) = 100"
    by (simp_all add: singleLogoImage_def singleLogoScale_def scaledImage_def fitScale_def
        logo200x100_def tab2_def noContent_def num_or_def nz_def)
  from single_logo_top [OF h t, of "new_Canvas ''#FFFFFF''" logo200x100]
  show ?thesis using h sc top by simp
qed

text \<open>
  C4, as stated, fails when the first entry's top is 0: the entry has a top, yet the logo
  is placed relative to 360. Here the logo's scaled height is 100 and its top is 230, not
  0 - 100 - 30.
\<close>

theorem single_logo_top_zero:
  "logoTop topZero = None
   \<and> map_option tc_top (map_option hd (texts topZero)) = Some (Some 0)
   \<and> im_height (singleLogoImage topZero logo200x100)
       * im_scale (singleLogoImage topZero logo200x100) = 100
   \<and> heap (complete topZero (SingleLogoLoad, Some logo200x100) (new_Canvas ''#FFFFFF'')) ! 0
       = FabricImage (singleLogoImage topZero logo200x100)
   \<and> im_top (singleLogoImage topZero logo200x100) = Some 230
   \<and> im_top (singleLogoImage topZero logo200x100) \<noteq> Some (0 - 100 - 30)"
  by (simp add: topZero_def noContent_def textEntry_def logo200x100_def singleLogoImage_def
      singleLogoTop_def singleLogoScale_def scaledImage_def fitScale_def num_or_def nz_def
      THUMBNAIL_HEIGHT_def onSingleLogoLoaded_def new_Canvas_def withBorder_def truthy_bool_def)

section \<open>Bringing the text boxes to the front\<close>

lemma bringToFront_mid:
  assumes "distinct (N @ a # R)"
  shows "bringToFront a (N @ a # R) = N @ R @ [a]"
proof (cases "R = []")
  case True
  then show ?thesis by (simp add: bringToFront_def)
next
  case False
  then have "last (N @ a # R) = last R" by simp
  moreover have "last R \<in> set R" using False by simp
  ultimately have "last (N @ a # R) \<noteq> a" using assms by auto
  moreover have "remove1 a (N @ a # R) = N @ R"
    using assms by (simp add: remove1_append)
  ultimately show ?thesis by (simp add: bringToFront_def)
qed

text \<open>
  While the loop runs, the list is the objects already seen that are no text boxes, then
  the objects still to come, then the text boxes already moved.
\<close>

lemma bringTextsToFront_split:
  "distinct (N @ A @ D) \<Longrightarrow>
   bringTextsToFront h A (N @ A @ D)
     = N @ filter (\<lambda>r. \<not> isTextRef h r) A @ D @ filter (isTextRef h) A"
proof (induction A arbitrary: N D)
  case Nil
  then show ?case by simp
next
  case (Cons a A)
  show ?case
  proof (cases "isTextRef h a")
    case True
    have "bringToFront a (N @ a # A @ D) = N @ A @ (D @ [a])"
      using Cons.prems bringToFront_mid [of N a "A @ D"] by simp
    moreover have "distinct (N @ A @ (D @ [a]))" using Cons.prems by auto
    ultimately show ?thesis using True Cons.IH [of N "D @ [a]"] by simp
  next
    case False
    have "distinct ((N @ [a]) @ A @ D)" using Cons.prems by auto
    from Cons.IH [OF this] show ?thesis using False by simp
  qed
qed

lemma bringTextsToFront_all:
  "distinct objs \<Longrightarrow>
   bringTextsToFront h objs objs
     = filter (\<lambda>r. \<not> isTextRef h r) objs @ filter (isTextRef h) objs"
  using bringTextsToFront_split [of "[]" objs "[]" h] by simp

lemma isTextRef_append:
  "r < length h \<Longrightarrow> isTextRef (h @ h') r = isTextRef h r"
  by (simp add: isTextRef_def nth_append)

lemma filter_isTextRef_append:
  "list_all (\<lambda>r. r < length h) objs \<Longrightarrow>
   filter (isTextRef (h @ h')) objs = filter (isTextRef h) objs
   \<and> filter (\<lambda>r. \<not> isTextRef (h @ h') r) objs = filter (\<lambda>r. \<not> isTextRef h r) objs"
  by (induction objs) (simp_all add: isTextRef_append)

section \<open>The nine ball step\<close>

lemma createNineBall_fields [simp]:
  "heap (createNineBall ic s) = heap s @ [Circle (ball ic), FabricText (numberText ic)]"
  "backgroundImageRef (createNineBall ic s) = backgroundImageRef s"
  "logoImages (createNineBall ic s) = logoImages s"
  "loadedLogos (createNineBall ic s) = loadedLogos s"
  by (simp_all add: createNineBall_def Let_def)

lemma sendToBack_behind:
  assumes "g \<notin> set F"
  shows "sendToBack g (B @ F) = g # remove1 g B @ F"
proof (cases "B \<noteq> [] \<and> hd B = g")
  case True
  then obtain t where "B = g # t" by (cases B) auto
  then show ?thesis by (simp add: sendToBack_def)
next
  case False
  show ?thesis
  proof (cases "B = []")
    case True
    then show ?thesis using assms
      by (cases F) (auto simp: sendToBack_def remove1_idem)
  next
    case nonempty: False
    with False have "hd (B @ F) \<noteq> g" by simp
    then show ?thesis using assms by (simp add: sendToBack_def remove1_append remove1_idem)
  qed
qed

lemma createNineBall_objects:
  assumes "wf_state s"
  shows "cv_objects (createNineBall ic s)
    = (case backgroundImageRef s of
         None \<Rightarrow> filter (\<lambda>r. \<not> isTextRef (heap s) r) (cv_objects s)
       | Some g \<Rightarrow> g # remove1 g (filter (\<lambda>r. \<not> isTextRef (heap s) r) (cv_objects s)))
      @ [length (heap s), Suc (length (heap s))]
      @ filter (isTextRef (heap s)) (cv_objects s)"
proof -
  let ?b = "length (heap s)"
  let ?h2 = "heap s @ [Circle (ball ic), FabricText (numberText ic)]"
  let ?L = "cv_objects s @ [?b, Suc ?b]"
  let ?N = "filter (\<lambda>r. \<not> isTextRef (heap s) r) (cv_objects s)"
  let ?T = "filter (isTextRef (heap s)) (cv_objects s)"
  have bound: "list_all (\<lambda>r. r < ?b) (cv_objects s)" and dist: "distinct (cv_objects s)"
    using assms by (simp_all add: wf_state_def)
  then have dL: "distinct ?L" by (auto simp: list_all_iff)
  have nb: "\<not> isTextRef ?h2 ?b" "\<not> isTextRef ?h2 (Suc ?b)"
    by (simp_all add: isTextRef_def isTextObj_def nth_append)
  have "bringTextsToFront ?h2 ?L ?L = ?N @ [?b, Suc ?b] @ ?T"
    using bringTextsToFront_all [OF dL, of ?h2] nb
      filter_isTextRef_append [OF bound, of "[Circle (ball ic), FabricText (numberText ic)]"]
    by simp
  then have s3: "cv_objects (createNineBall ic s)
      = cv_objects (keepBackgroundBehind (s\<lparr>heap := ?h2, cv_objects := ?N @ [?b, Suc ?b] @ ?T\<rparr>))"
    by (simp add: createNineBall_def Let_def addNew_def alloc_def add_def keepBackgroundBehind_def
        sendObjectToBack_def split: option.splits)
  show ?thesis
  proof (cases "backgroundImageRef s")
    case None
    then show ?thesis using s3 by (simp add: keepBackgroundBehind_def)
  next
    case (Some g)
    then have g: "g < ?b" "obj_type (heap s ! g) = ''image''"
      using assms by (simp_all add: wf_state_def)
    then have "\<not> isTextRef (heap s) g" by (simp add: isTextRef_def isTextObj_def)
    then have "g \<notin> set ([?b, Suc ?b] @ ?T)" using g(1) by auto
    from sendToBack_behind [OF this, of ?N] show ?thesis
      using s3 Some by (simp add: keepBackgroundBehind_def sendObjectToBack_def)
  qed
qed

section \<open>Well-formed states are kept\<close>

lemma wf_new_Canvas: "wf_state (new_Canvas c)"
  by (simp add: wf_state_def new_Canvas_def)

lemma wf_addNew: "wf_state s \<Longrightarrow> wf_state (addNew obj s)"
  by (auto simp: wf_state_def list_all_iff nth_append split: option.splits)

lemma distinct_sendToBack: "distinct objs \<Longrightarrow> distinct (sendToBack g objs)"
  by (simp add: sendToBack_def)

lemma wf_keepBackgroundBehind: "wf_state s \<Longrightarrow> wf_state (keepBackgroundBehind s)"
  by (auto simp: wf_state_def keepBackgroundBehind_def sendObjectToBack_def list_all_iff
      set_sendToBack distinct_sendToBack split: option.splits)

lemma addTexts_fields [simp]:
  "heap (addTexts ts s) = heap s @ map (\<lambda>t. Textbox (textObject t)) ts"
  "cv_objects (addTexts ts s) = cv_objects s @ [length (heap s) ..< length (heap s) + length ts]"
  "backgroundImageRef (addTexts ts s) = backgroundImageRef s"
  "logoImages (addTexts ts s) = logoImages s"
  "loadedLogos (addTexts ts s) = loadedLogos s"
  by (induction ts arbitrary: s) (simp_all add: upt_rec)

lemma wf_addTexts: "wf_state s \<Longrightarrow> wf_state (addTexts ts s)"
  by (induction ts arbitrary: s) (simp_all add: wf_addNew)

lemma wf_reorder:
  assumes "wf_state s" and "heap s' = heap s" and "backgroundImageRef s' = backgroundImageRef s"
    and "set (cv_objects s') = set (cv_objects s)" and "distinct (cv_objects s')"
  shows "wf_state s'"
  using assms by (simp add: wf_state_def list_all_iff split: option.splits)

lemma bringTextsToFront_perm:
  assumes "distinct objs"
  shows "set (bringTextsToFront h objs objs) = set objs"
    and "distinct (bringTextsToFront h objs objs)"
  using assms by (auto simp: bringTextsToFront_all)

lemma wf_createNineBall:
  assumes "wf_state s"
  shows "wf_state (createNineBall ic s)"
proof -
  define s2 where "s2 = addNew (FabricText (numberText ic)) (addNew (Circle (ball ic)) s)"
  define s3 where "s3 = s2\<lparr>cv_objects := bringTextsToFront (heap s2) (cv_objects s2) (cv_objects s2)\<rparr>"
  have w2: "wf_state s2" using assms by (simp add: s2_def wf_addNew)
  then have d: "distinct (cv_objects s2)" by (simp add: wf_state_def)
  have "wf_state s3"
    using w2 bringTextsToFront_perm [OF d, of "heap s2"]
    by (rule_tac s = s2 in wf_reorder) (simp_all add: s3_def)
  then show ?thesis
    by (simp add: createNineBall_def Let_def wf_keepBackgroundBehind s3_def s2_def)
qed

lemma wf_initPass: "wf_state s \<Longrightarrow> wf_state (initPass ic s)"
proof -
  assume "wf_state s"
  then have "wf_state (s\<lparr>backgroundImageRef := None, loadedLogos := 0, logoImages := []\<rparr>)"
    by (simp add: wf_state_def)
  then show ?thesis
    by (simp add: initPass_def Let_def wf_addTexts wf_createNineBall split: option.splits)
qed

section \<open>The text boxes of the scene\<close>

lemma isTextRef_nth: "r < length h \<Longrightarrow> isTextRef h r = isTextObj (h ! r)"
  by (simp add: isTextRef_def)

lemma scene_texts:
  assumes "list_all (\<lambda>r. r < length (heap s)) (cv_objects s)"
  shows "filter isTextObj (scene s) = map (\<lambda>r. heap s ! r) (filter (isTextRef (heap s)) (cv_objects s))"
proof -
  have "filter (isTextObj \<circ> (\<lambda>r. heap s ! r)) (cv_objects s) = filter (isTextRef (heap s)) (cv_objects s)"
    using assms by (intro filter_cong) (auto simp: list_all_iff isTextRef_nth)
  then show ?thesis by (simp add: scene_def filter_map)
qed

lemma createNineBall_texts:
  assumes "wf_state s"
  shows "filter isTextObj (scene (createNineBall ic s)) = filter isTextObj (scene s)"
proof -
  let ?h' = "heap (createNineBall ic s)"
  have bound: "list_all (\<lambda>r. r < length (heap s)) (cv_objects s)"
    using assms by (simp add: wf_state_def)
  have w': "wf_state (createNineBall ic s)" using assms by (rule wf_createNineBall)
  then have bound': "list_all (\<lambda>r. r < length ?h') (cv_objects (createNineBall ic s))"
    by (simp add: wf_state_def)
  let ?N = "filter (\<lambda>r. \<not> isTextRef (heap s) r) (cv_objects s)"
  let ?T = "filter (isTextRef (heap s)) (cv_objects s)"
  let ?B = "case backgroundImageRef s of None \<Rightarrow> ?N | Some g \<Rightarrow> g # remove1 g ?N"
  have old: "r < length (heap s) \<Longrightarrow> isTextRef ?h' r = isTextRef (heap s) r" for r
    by (simp add: isTextRef_append)
  have B: "\<forall>r\<in>set ?B. \<not> isTextRef ?h' r"
  proof (cases "backgroundImageRef s")
    case None
    then show ?thesis using bound by (auto simp: list_all_iff isTextRef_append)
  next
    case (Some g)
    then have g: "g < length (heap s)" "\<not> isTextRef (heap s) g"
      using assms by (simp_all add: wf_state_def isTextRef_def isTextObj_def)
    have "set (remove1 g ?N) \<subseteq> set ?N" by (rule set_remove1_subset)
    then show ?thesis using Some g bound by (auto simp: list_all_iff isTextRef_append)
  qed
  have T: "\<forall>r\<in>set ?T. isTextRef ?h' r"
    using bound by (auto simp: list_all_iff isTextRef_append)
  have nb: "\<not> isTextRef ?h' (length (heap s))" "\<not> isTextRef ?h' (Suc (length (heap s)))"
    by (simp_all add: isTextRef_def isTextObj_def nth_append)
  have fB: "filter (isTextRef ?h') ?B = []" using B by (rule filter_False)
  have fT: "filter (isTextRef ?h') ?T = ?T" using T by (rule filter_True)
  have fn: "filter (isTextRef ?h') [length (heap s), Suc (length (heap s))] = []"
    using nb by simp
  have "filter (isTextRef ?h') (?B @ [length (heap s), Suc (length (heap s))] @ ?T) = ?T"
    unfolding filter_append fB fT fn by simp
  then have "filter (isTextRef ?h') (cv_objects (createNineBall ic s)) = ?T"
    by (simp only: createNineBall_objects [OF assms])
  moreover have "map (\<lambda>r. ?h' ! r) ?T = map (\<lambda>r. heap s ! r) ?T"
    using bound by (intro map_cong) (auto simp: list_all_iff nth_append)
  ultimately show ?thesis
    using scene_texts [OF bound] scene_texts [OF bound'] by simp
qed

lemma scene_addTexts:
  assumes "list_all (\<lambda>r. r < length (heap s)) (cv_objects s)"
  shows "scene (addTexts ts s) = scene s @ map (\<lambda>t. Textbox (textObject t)) ts"
proof -
  have "map (\<lambda>r. (heap s @ map (\<lambda>t. Textbox (textObject t)) ts) ! r) (cv_objects s)
        = map (\<lambda>r. heap s ! r) (cv_objects s)"
    using assms by (intro map_cong) (auto simp: list_all_iff nth_append)
  moreover have "map (\<lambda>r. (heap s @ map (\<lambda>t. Textbox (textObject t)) ts) ! r)
          [length (heap s) ..< length (heap s) + length ts]
        = map (\<lambda>t. Textbox (textObject t)) ts"
    by (rule nth_equalityI) (simp_all add: nth_append)
  ultimately show ?thesis by (simp add: scene_def)
qed

lemma initPass_texts:
  assumes "wf_state s" and "texts ic = Some ts"
  shows "filter isTextObj (scene (initPass ic s))
         = filter isTextObj (scene s) @ map (\<lambda>t. Textbox (textObject t)) ts"
proof -
  define s0 where "s0 = s\<lparr>backgroundImageRef := None, loadedLogos := 0, logoImages := []\<rparr>"
  have w0: "wf_state s0" using assms(1) by (simp add: s0_def wf_state_def)
  have sc0: "scene s0 = scene s" by (simp add: s0_def scene_def)
  have b0: "list_all (\<lambda>r. r < length (heap s0)) (cv_objects s0)"
    using w0 by (simp add: wf_state_def)
  have t: "filter isTextObj (scene (addTexts ts s0))
           = filter isTextObj (scene s) @ map (\<lambda>t. Textbox (textObject t)) ts"
    by (simp add: scene_addTexts [OF b0] sc0 isTextObj_def filter_map o_def)
  have "filter isTextObj (scene (initPass ic s)) = filter isTextObj (scene (addTexts ts s0))"
    using assms(2) createNineBall_texts [OF wf_addTexts [OF w0], of ic ts]
    by (simp add: initPass_def Let_def s0_def)
  with t show ?thesis by simp
qed

section \<open>Properties of the initialization pass\<close>

text \<open>
  C1, as amended: the initialization pass adds one text box per entry of the texts list,
  in the list's order and in front of the text boxes the canvas already had. Each carries
  the entry's content; its \<open>left\<close>, \<open>strokeWidth\<close>, \<open>angle\<close>, \<open>textAlign\<close> and
  \<open>originX\<close> when supplied; its \<open>top\<close>, \<open>fontSize\<close> and \<open>width\<close> when supplied
  and not 0; its \<open>fontFamily\<close>, \<open>color\<close>, \<open>fontWeight\<close> and \<open>stroke\<close> when
  supplied and not empty; and otherwise the default: left 620, top 360, fontSize 60,
  fontFamily Arial, fill #FFFFFF, fontWeight bold, stroke #000000, strokeWidth 3,
  textAlign center, originX center, originY center, width 1024, angle 0.
\<close>

theorem initial_texts:
  assumes "wf_state s"
  shows "filter isTextObj (scene (initPass ic s))
           = filter isTextObj (scene s)
             @ map (\<lambda>t. Textbox (textObject t)) (case texts ic of None \<Rightarrow> [] | Some ts \<Rightarrow> ts)
    \<and> tb_text (textObject t) = tc_content t
    \<and> tb_left (textObject t) = (case tc_left t of None \<Rightarrow> 620 | Some v \<Rightarrow> v)
    \<and> tb_top (textObject t)
        = (case tc_top t of None \<Rightarrow> 360 | Some v \<Rightarrow> if v = 0 then 360 else v)
    \<and> tb_fontSize (textObject t)
        = (case tc_fontSize t of None \<Rightarrow> 60 | Some v \<Rightarrow> if v = 0 then 60 else v)
    \<and> tb_fontFamily (textObject t)
        = (case tc_fontFamily t of None \<Rightarrow> ''Arial'' | Some v \<Rightarrow> if v = [] then ''Arial'' else v)
    \<and> tb_fill (textObject t)
        = (case tc_color t of None \<Rightarrow> ''#FFFFFF'' | Some v \<Rightarrow> if v = [] then ''#FFFFFF'' else v)
    \<and> tb_fontWeight (textObject t)
        = (case tc_fontWeight t of None \<Rightarrow> ''bold'' | Some v \<Rightarrow> if v = [] then ''bold'' else v)
    \<and> tb_stroke (textObject t)
        = (case tc_stroke t of None \<Rightarrow> ''#000000'' | Some v \<Rightarrow> if v = [] then ''#000000'' else v)
    \<and> tb_strokeWidth (textObject t) = (case tc_strokeWidth t of None \<Rightarrow> 3 | Some v \<Rightarrow> v)
    \<and> tb_textAlign (textObject t) = (case tc_textAlign t of None \<Rightarrow> AlignCenter | Some v \<Rightarrow> v)
    \<and> tb_originX (textObject t) = (case tc_originX t of None \<Rightarrow> OriginCenter | Some v \<Rightarrow> v)
    \<and> tb_originY (textObject t) = OriginMiddle
    \<and> tb_width (textObject t)
        = (case tc_width t of None \<Rightarrow> 1024 | Some v \<Rightarrow> if v = 0 then 1024 else v)
    \<and> tb_angle (textObject t) = (case tc_angle t of None \<Rightarrow> 0 | Some v \<Rightarrow> v)"
proof -
  have a: "filter isTextObj (scene (initPass ic s))
           = filter isTextObj (scene s)
             @ map (\<lambda>t. Textbox (textObject t)) (case texts ic of None \<Rightarrow> [] | Some ts \<Rightarrow> ts)"
  proof (cases "texts ic")
    case None
    define s0 where "s0 = s\<lparr>backgroundImageRef := None, loadedLogos := 0, logoImages := []\<rparr>"
    have w0: "wf_state s0" using assms by (simp add: s0_def wf_state_def)
    have "scene s0 = scene s" by (simp add: s0_def scene_def)
    then show ?thesis
      using None createNineBall_texts [OF w0, of ic]
      by (simp add: initPass_def Let_def s0_def)
  next
    case (Some ts)
    then show ?thesis using initPass_texts [OF assms Some] by simp
  qed
  have b: "tb_text (textObject t) = tc_content t
    \<and> tb_left (textObject t) = (case tc_left t of None \<Rightarrow> 620 | Some v \<Rightarrow> v)
    \<and> tb_top (textObject t)
        = (case tc_top t of None \<Rightarrow> 360 | Some v \<Rightarrow> if v = 0 then 360 else v)
    \<and> tb_fontSize (textObject t)
        = (case tc_fontSize t of None \<Rightarrow> 60 | Some v \<Rightarrow> if v = 0 then 60 else v)
    \<and> tb_width (textObject t)
        = (case tc_width t of None \<Rightarrow> 1024 | Some v \<Rightarrow> if v = 0 then 1024 else v)
    \<and> tb_angle (textObject t) = (case tc_angle t of None \<Rightarrow> 0 | Some v \<Rightarrow> v)"
    by (simp add: textObject_def nullish_def num_or_def nz_def THUMBNAIL_WIDTH_def
        THUMBNAIL_HEIGHT_def split: option.splits)
  have c: "tb_fontFamily (textObject t)
        = (case tc_fontFamily t of None \<Rightarrow> ''Arial'' | Some v \<Rightarrow> if v = [] then ''Arial'' else v)
    \<and> tb_fill (textObject t)
        = (case tc_color t of None \<Rightarrow> ''#FFFFFF'' | Some v \<Rightarrow> if v = [] then ''#FFFFFF'' else v)
    \<and> tb_fontWeight (textObject t)
        = (case tc_fontWeight t of None \<Rightarrow> ''bold'' | Some v \<Rightarrow> if v = [] then ''bold'' else v)
    \<and> tb_stroke (textObject t)
        = (case tc_stroke t of None \<Rightarrow> ''#000000'' | Some v \<Rightarrow> if v = [] then ''#000000'' else v)"
    by (simp add: textObject_def str_or_def)
  have d: "tb_strokeWidth (textObject t) = (case tc_strokeWidth t of None \<Rightarrow> 3 | Some v \<Rightarrow> v)
    \<and> tb_textAlign (textObject t) = (case tc_textAlign t of None \<Rightarrow> AlignCenter | Some v \<Rightarrow> v)
    \<and> tb_originX (textObject t) = (case tc_originX t of None \<Rightarrow> OriginCenter | Some v \<Rightarrow> v)
    \<and> tb_originY (textObject t) = OriginMiddle"
    by (simp add: textObject_def nullish_def)
  from a b c d show ?thesis by simp
qed

theorem initial_texts_witness:
  "wf_state (new_Canvas ''#FFFFFF'')
   \<and> filter isTextObj (scene (initPass tab2 (new_Canvas ''#FFFFFF'')))
       = map (\<lambda>t. Textbox (textObject t)) (the (texts tab2))
   \<and> length (the (texts tab2)) = 2
   \<and> tb_top (textObject (hd (the (texts tab2)))) = 440
   \<and> tb_width (textObject (last (the (texts tab2)))) = 1024"
proof -
  have w: "wf_state (new_Canvas ''#FFFFFF'')" by (rule wf_new_Canvas)
  have s: "scene (new_Canvas ''#FFFFFF'') = []" by (simp add: scene_def new_Canvas_def)
  have t: "tc_top (hd (the (texts tab2))) = Some 440" "tc_width (last (the (texts tab2))) = None"
    "length (the (texts tab2)) = 2"
    by (simp_all add: tab2_def noContent_def textEntry_def THUMBNAIL_HEIGHT_def)
  from initial_texts [OF w, of tab2 "hd (the (texts tab2))"]
    initial_texts [OF w, of tab2 "last (the (texts tab2))"]
  show ?thesis using w s t by (simp add: tab2_def noContent_def)
qed

text \<open>
  C1, as stated, fails for a supplied attribute that is falsy: an entry with \<open>top: 0\<close>
  gets a text box whose top is 360.
\<close>

theorem supplied_top_zero_replaced:
  "map_option (map tc_top) (texts topZero) = Some [Some 0]
   \<and> scene (initPass topZero (new_Canvas ''#FFFFFF''))
       = [Textbox \<lparr>tb_text = ''x'', tb_left = 620, tb_top = 360, tb_fontSize = 60,
                   tb_fontFamily = ''Arial'', tb_fill = ''#FFFFFF'', tb_fontWeight = ''bold'',
                   tb_stroke = ''#000000'', tb_strokeWidth = 3, tb_textAlign = AlignCenter,
                   tb_originX = OriginCenter, tb_originY = OriginMiddle, tb_width = 1024,
                   tb_angle = 0, tb_charSpacing = 0, tb_editable = True\<rparr>]"
  by (simp add: topZero_def noContent_def textEntry_def initPass_def Let_def scene_def
      new_Canvas_def textObject_def nullish_def num_or_def nz_def str_or_def truthy_bool_def
      THUMBNAIL_WIDTH_def THUMBNAIL_HEIGHT_def)

text \<open>
  C7, as amended: after the nine ball step the circle and its numeral are on the canvas
  next to each other, every object in front of them is a text box and no object behind
  them is one, and the background image, once it has loaded, is the back-most object
  behind them. The ball's radius is half of \<open>nineBallSize\<close> (250 when absent or 0).
  Its vertical centre, which is also the numeral's, is 360 when no \<open>logoTop\<close> is
  configured, and otherwise \<open>logoTop\<close> plus the estimated logo height (200 times
  \<open>logoSizeMultiplier\<close>, the multiplier being 1 when absent or 0) plus the paddings
  5.25, 15 and 10 plus the radius.
\<close>

theorem nine_ball_stacking:
  assumes "wf_state s"
  shows "complete ic (NineBallLogoLoad, outcome) s = createNineBall ic s
    \<and> heap (createNineBall ic s) ! length (heap s) = Circle (ball ic)
    \<and> heap (createNineBall ic s) ! Suc (length (heap s)) = FabricText (numberText ic)
    \<and> (\<exists>back front.
          cv_objects (createNineBall ic s)
            = back @ [length (heap s), Suc (length (heap s))] @ front
        \<and> set (cv_objects s) \<subseteq> set back \<union> set front
        \<and> (\<forall>r\<in>set front. isTextRef (heap (createNineBall ic s)) r)
        \<and> (\<forall>r\<in>set back. \<not> isTextRef (heap (createNineBall ic s)) r)
        \<and> (\<forall>g. backgroundImageRef (createNineBall ic s) = Some g \<longrightarrow> back \<noteq> [] \<and> hd back = g))
    \<and> ci_radius (ball ic)
        = (case nineBallSize ic of None \<Rightarrow> 250 | Some d \<Rightarrow> if d = 0 then 250 else d) / 2
    \<and> ci_top (ball ic)
        = (case logoTop ic of
             None \<Rightarrow> 360
           | Some t \<Rightarrow>
               t + 200 * (case logoSizeMultiplier ic of
                            None \<Rightarrow> 1 | Some m \<Rightarrow> if m = 0 then 1 else m)
                 + 21 / 4 + ci_radius (ball ic) + 15 + 10)
    \<and> tx_top (numberText ic) = ci_top (ball ic)"
proof -
  let ?h' = "heap (createNineBall ic s)"
  let ?N = "filter (\<lambda>r. \<not> isTextRef (heap s) r) (cv_objects s)"
  let ?T = "filter (isTextRef (heap s)) (cv_objects s)"
  let ?B = "case backgroundImageRef s of None \<Rightarrow> ?N | Some g \<Rightarrow> g # remove1 g ?N"
  have bound: "list_all (\<lambda>r. r < length (heap s)) (cv_objects s)"
    and dist: "distinct (cv_objects s)"
    using assms by (simp_all add: wf_state_def)
  have objs: "cv_objects (createNineBall ic s)
      = ?B @ [length (heap s), Suc (length (heap s))] @ ?T"
    by (rule createNineBall_objects [OF assms])
  have sub: "set (cv_objects s) \<subseteq> set ?B \<union> set ?T"
    using dist by (auto split: option.splits)
  have T: "\<forall>r\<in>set ?T. isTextRef ?h' r"
    using bound by (auto simp: list_all_iff isTextRef_append)
  have B: "\<forall>r\<in>set ?B. \<not> isTextRef ?h' r"
  proof (cases "backgroundImageRef s")
    case None
    then show ?thesis using bound by (auto simp: list_all_iff isTextRef_append)
  next
    case (Some g)
    then have g: "g < length (heap s)" "\<not> isTextRef (heap s) g"
      using assms by (simp_all add: wf_state_def isTextRef_def isTextObj_def)
    have "set (remove1 g ?N) \<subseteq> set ?N" by (rule set_remove1_subset)
    then show ?thesis using Some g bound by (auto simp: list_all_iff isTextRef_append)
  qed
  have G: "\<forall>g. backgroundImageRef (createNineBall ic s) = Some g \<longrightarrow> ?B \<noteq> [] \<and> hd ?B = g"
    by simp
  have order: "\<exists>back front.
          cv_objects (createNineBall ic s)
            = back @ [length (heap s), Suc (length (heap s))] @ front
        \<and> set (cv_objects s) \<subseteq> set back \<union> set front
        \<and> (\<forall>r\<in>set front. isTextRef ?h' r)
        \<and> (\<forall>r\<in>set back. \<not> isTextRef ?h' r)
        \<and> (\<forall>g. backgroundImageRef (createNineBall ic s) = Some g \<longrightarrow> back \<noteq> [] \<and> hd back = g)"
    using objs sub T B G by blast
  have objs2: "?h' ! length (heap s) = Circle (ball ic)"
    "?h' ! Suc (length (heap s)) = FabricText (numberText ic)"
    by (simp_all add: nth_append)
  have pos: "ci_radius (ball ic)
        = (case nineBallSize ic of None \<Rightarrow> 250 | Some d \<Rightarrow> if d = 0 then 250 else d) / 2"
    "ci_top (ball ic)
        = (case logoTop ic of
             None \<Rightarrow> 360
           | Some t \<Rightarrow>
               t + 200 * (case logoSizeMultiplier ic of
                            None \<Rightarrow> 1 | Some m \<Rightarrow> if m = 0 then 1 else m)
                 + 21 / 4 + ci_radius (ball ic) + 15 + 10)"
    "tx_top (numberText ic) = ci_top (ball ic)"
    by (simp_all add: ball_def numberText_def ballTop_def ballRadius_def num_or_def nz_def
        THUMBNAIL_HEIGHT_def Let_def split: option.splits)
  have ev: "complete ic (NineBallLogoLoad, outcome) s = createNineBall ic s" by simp
  from ev objs2 order pos show ?thesis by blast
qed


theorem nine_ball_stacking_witness:
  "wf_state nineBallInput
   \<and> cv_objects nineBallInput = [2, 0, 1]
   \<and> backgroundImageRef nineBallInput = Some 2
   \<and> cv_objects (createNineBall tab7bg nineBallInput) = [2, 3, 4, 0, 1]
   \<and> heap (createNineBall tab7bg nineBallInput) ! 3 = Circle (ball tab7bg)
   \<and> heap (createNineBall tab7bg nineBallInput) ! 4 = FabricText (numberText tab7bg)
   \<and> ci_radius (ball tab7bg) = 100
   \<and> ci_top (ball tab7bg) = 50 + 200 * (13 / 10) + 21 / 4 + 100 + 15 + 10"
proof -
  have w: "wf_state nineBallInput" by code_simp
  have e: "cv_objects nineBallInput = [2, 0, 1]" "backgroundImageRef nineBallInput = Some 2"
    "length (heap nineBallInput) = 3"
    "cv_objects (createNineBall tab7bg nineBallInput) = [2, 3, 4, 0, 1]"
    by code_simp+
  have c: "logoTop tab7bg = Some 50" "logoSizeMultiplier tab7bg = Some (13 / 10)"
    "nineBallSize tab7bg = Some 200"
    by (simp_all add: tab7bg_def tab7_def noContent_def)
  from nine_ball_stacking [OF w, of tab7bg None] show ?thesis
    using w e c by (simp add: numeral_3_eq_3 eval_nat_numeral)
qed

text \<open>
  C7, as stated, fails for the position: with no \<open>logoTop\<close> the ball's centre is 360,
  computed from nothing the descriptor configures; and with a logo size multiplier of 0
  the estimated logo height is 200, not 200 times 0.
\<close>

theorem nine_ball_top_differs:
  "truthy_bool (showNineBall nineBallNoTop) \<and> logoTop nineBallNoTop = None
   \<and> ci_top (ball nineBallNoTop) = 360
   \<and> truthy_bool (showNineBall nineBallZeroMult)
   \<and> logoTop nineBallZeroMult = Some 50 \<and> logoSizeMultiplier nineBallZeroMult = Some 0
   \<and> ci_radius (ball nineBallZeroMult) = 125
   \<and> ci_top (ball nineBallZeroMult) = 50 + 200 * 1 + 21 / 4 + 125 + 15 + 10
   \<and> ci_top (ball nineBallZeroMult) \<noteq> 50 + 200 * 0 + 21 / 4 + 125 + 15 + 10"
  by (simp add: nineBallNoTop_def nineBallZeroMult_def noContent_def truthy_bool_def ball_def
      ballTop_def ballRadius_def num_or_def nz_def THUMBNAIL_HEIGHT_def)

section \<open>Invariants of the completion handlers\<close>

lemma length_img_set [simp]: "length (img_set f r h) = length h"
  by (simp add: img_set_def split: fabric_object.splits)

lemma img_set_other: "i \<noteq> r \<Longrightarrow> img_set f r h ! i = h ! i"
  by (simp add: img_set_def split: fabric_object.splits)

lemma obj_type_img_set [simp]: "obj_type (img_set f r h ! i) = obj_type (h ! i)"
  by (cases "i = r") (auto simp: img_set_def img_set_other split: fabric_object.splits)

lemma length_positionLogos [simp]: "length (positionLogos imgs x h) = length h"
  by (induction imgs x h rule: positionLogos.induct) simp_all

lemma obj_type_positionLogos [simp]: "obj_type (positionLogos imgs x h ! i) = obj_type (h ! i)"
  by (induction imgs x h rule: positionLogos.induct) simp_all

lemma positionLogos_other:
  "\<forall>w. Some (i, w) \<notin> set imgs \<Longrightarrow> positionLogos imgs x h ! i = h ! i"
  by (induction imgs x h rule: positionLogos.induct) (auto simp: img_set_other)

lemma isTextRef_positionLogos [simp]: "isTextRef (positionLogos imgs x h) = isTextRef h"
  by (rule ext) (simp add: isTextRef_def isTextObj_def)

lemma set_js_set: "set (js_set xs i v) \<subseteq> insert (Some v) (insert None (set xs))"
  using set_update_subset_insert [of xs i "Some v"] by (auto simp: js_set_def)

lemma logosOk_iff:
  "logosOk s \<longleftrightarrow>
     (\<forall>r w. Some (r, w) \<in> set (logoImages s) \<longrightarrow>
        r < length (heap s) \<and> backgroundImageRef s \<noteq> Some r)"
  by (auto simp: logosOk_def list_all_iff split: option.splits)

text \<open>Every completion keeps the three invariants.\<close>

lemma inv_addNew:
  assumes "wf_state s" "logosOk s" "bgBehind s"
  shows "wf_state (addNew obj s)" "logosOk (addNew obj s)" "bgBehind (addNew obj s)"
proof -
  show "wf_state (addNew obj s)" using assms(1) by (rule wf_addNew)
  show "logosOk (addNew obj s)"
    using assms(2) by (auto simp: logosOk_iff)
  show "bgBehind (addNew obj s)"
    using assms(3) by (auto simp: bgBehind_def split: option.splits)
qed

lemma hd_sendToBack: "hd (sendToBack g objs) = g" "sendToBack g objs \<noteq> []"
  by (auto simp: sendToBack_def)

lemma inv_keepBackgroundBehind:
  assumes "wf_state s" "logosOk s"
  shows "wf_state (keepBackgroundBehind s)" "logosOk (keepBackgroundBehind s)"
    "bgBehind (keepBackgroundBehind s)"
proof -
  show "wf_state (keepBackgroundBehind s)" using assms(1) by (rule wf_keepBackgroundBehind)
  show "logosOk (keepBackgroundBehind s)"
    using assms(2) by (simp add: logosOk_iff)
  show "bgBehind (keepBackgroundBehind s)"
    by (simp add: bgBehind_def keepBackgroundBehind_def sendObjectToBack_def hd_sendToBack
        split: option.splits)
qed

lemma inv_createNineBall:
  assumes "wf_state s" "logosOk s"
  shows "wf_state (createNineBall ic s)" "logosOk (createNineBall ic s)" "bgBehind (createNineBall ic s)"
proof -
  show "wf_state (createNineBall ic s)" using assms(1) by (rule wf_createNineBall)
  show "logosOk (createNineBall ic s)"
    using assms(2) by (auto simp: logosOk_iff)
  show "bgBehind (createNineBall ic s)"
    by (simp add: bgBehind_def createNineBall_objects [OF assms(1)] split: option.splits)
qed

lemma onBackgroundLoaded_fields [simp]:
  "heap (onBackgroundLoaded img s) = heap s @ [FabricImage (backgroundImage img)]"
  "backgroundImageRef (onBackgroundLoaded img s) = Some (length (heap s))"
  "logoImages (onBackgroundLoaded img s) = logoImages s"
  "loadedLogos (onBackgroundLoaded img s) = loadedLogos s"
  "cv_objects (onBackgroundLoaded img s) = sendToBack (length (heap s)) (cv_objects s @ [length (heap s)])"
  by (simp_all add: onBackgroundLoaded_def alloc_def add_def sendObjectToBack_def)

lemma inv_onBackgroundLoaded:
  assumes "wf_state s" "logosOk s"
  shows "wf_state (onBackgroundLoaded img s)" "logosOk (onBackgroundLoaded img s)"
    "bgBehind (onBackgroundLoaded img s)"
proof -
  show "wf_state (onBackgroundLoaded img s)"
    using assms(1)
    by (auto simp: wf_state_def list_all_iff set_sendToBack distinct_sendToBack)
  show "logosOk (onBackgroundLoaded img s)"
    using assms(2) by (auto simp: logosOk_iff)
  show "bgBehind (onBackgroundLoaded img s)"
    by (simp add: bgBehind_def hd_sendToBack)
qed

lemma inv_layoutLogos:
  assumes "wf_state s" "logosOk s"
  shows "wf_state (layoutLogos n s)" "logosOk (layoutLogos n s)" "bgBehind (layoutLogos n s)"
proof -
  let ?s1 = "s\<lparr>heap := positionLogos (logoImages s) (startX (logoImages s) n) (heap s)\<rparr>"
  have w: "wf_state ?s1" using assms(1) by (simp add: wf_state_def split: option.splits)
  have l: "logosOk ?s1" using assms(2) by (simp add: logosOk_iff)
  show "wf_state (layoutLogos n s)" "logosOk (layoutLogos n s)" "bgBehind (layoutLogos n s)"
    using inv_keepBackgroundBehind [OF w l] by (simp_all add: layoutLogos_def Let_def)
qed

lemma logoAdded_fields [simp]:
  "heap (logoAdded ic url i img s)
     = heap s @ [FabricImage (withBorder ic
                   (scaledImage img (fitScale (multiMaxLogoWidth ic url) img)))]"
  "cv_objects (logoAdded ic url i img s) = cv_objects s @ [length (heap s)]"
  "backgroundImageRef (logoAdded ic url i img s) = backgroundImageRef s"
  "logoImages (logoAdded ic url i img s)
     = js_set (logoImages s) i (length (heap s), multiScaledWidth ic url img)"
  "loadedLogos (logoAdded ic url i img s) = loadedLogos s + 1"
  by (simp_all add: logoAdded_def Let_def alloc_def add_def multiScaledWidth_def)

lemma inv_logoAdded:
  assumes "wf_state s" "logosOk s" "bgBehind s"
  shows "wf_state (logoAdded ic url i img s)" "logosOk (logoAdded ic url i img s)"
    "bgBehind (logoAdded ic url i img s)"
proof -
  show "wf_state (logoAdded ic url i img s)"
    using assms(1) by (auto simp: wf_state_def list_all_iff nth_append split: option.splits)
  show "bgBehind (logoAdded ic url i img s)"
    using assms(3) by (auto simp: bgBehind_def split: option.splits)
  have "backgroundImageRef s \<noteq> Some (length (heap s))"
    using assms(1) by (auto simp: wf_state_def)
  moreover have "e = Some (length (heap s), multiScaledWidth ic url img)
        \<or> e = None \<or> e \<in> set (logoImages s)"
    if "e \<in> set (logoImages (logoAdded ic url i img s))" for e
    using that set_js_set [of "logoImages s" i "(length (heap s), multiScaledWidth ic url img)"]
    by auto
  ultimately show "logosOk (logoAdded ic url i img s)"
    using assms(2) unfolding logosOk_iff by fastforce
qed

lemma inv_onLogoLoaded:
  assumes "wf_state s" "logosOk s" "bgBehind s"
  shows "wf_state (onLogoLoaded ic n url i img s)" "logosOk (onLogoLoaded ic n url i img s)"
    "bgBehind (onLogoLoaded ic n url i img s)"
  using inv_logoAdded [OF assms, of ic url i img]
    inv_layoutLogos [OF inv_logoAdded(1,2) [OF assms], of n ic url i img]
  by (simp_all add: onLogoLoaded_def Let_def)

lemma inv_complete:
  assumes "wf_state s" "logosOk s" "bgBehind s"
  shows "wf_state (complete ic ev s) \<and> logosOk (complete ic ev s) \<and> bgBehind (complete ic ev s)"
proof (cases ev)
  case (Pair l outcome)
  show ?thesis
  proof (cases outcome)
    case None
    then show ?thesis using assms Pair inv_createNineBall [OF assms(1,2)]
      by (cases l) simp_all
  next
    case (Some img)
    show ?thesis
    proof (cases l)
      case BgLoad
      then show ?thesis using Pair Some inv_onBackgroundLoaded [OF assms(1,2)] by simp
    next
      case (LogoLoad i)
      then show ?thesis using Pair Some assms inv_onLogoLoaded [OF assms] by (simp add: Let_def)
    next
      case SingleLogoLoad
      define s1 where "s1 = addNew (FabricImage (singleLogoImage ic img)) s"
      have 1: "wf_state s1" "logosOk s1" using inv_addNew [OF assms] by (simp_all add: s1_def)
      show ?thesis
        using Pair Some SingleLogoLoad inv_keepBackgroundBehind [OF 1]
        by (simp add: onSingleLogoLoaded_def s1_def)
    next
      case YoutubeLoad
      define s1 where "s1 = addNew (FabricImage (youtubeImage ic img)) s"
      define s2 where "s2 = addNew (Triangle (arrow ic img)) s1"
      have 1: "wf_state s1" "logosOk s1" "bgBehind s1"
        using inv_addNew [OF assms] by (simp_all add: s1_def)
      have 2: "wf_state s2" "logosOk s2" using inv_addNew [OF 1] by (simp_all add: s2_def)
      show ?thesis
        using Pair Some YoutubeLoad inv_keepBackgroundBehind [OF 1(1,2)]
          inv_keepBackgroundBehind [OF 2]
        by (simp add: onYoutubeLoaded_def Let_def s1_def s2_def)
    next
      case NineBallLogoLoad
      then show ?thesis using Pair Some inv_createNineBall [OF assms(1,2)] by simp
    qed
  qed
qed

section \<open>The background image stays behind\<close>

lemma settle_append: "settle ic (p @ q) s = settle ic q (settle ic p s)"
  by (induction p arbitrary: s) simp_all

lemma inv_settle:
  "wf_state s \<Longrightarrow> logosOk s \<Longrightarrow> bgBehind s \<Longrightarrow>
   wf_state (settle ic sched s) \<and> logosOk (settle ic sched s) \<and> bgBehind (settle ic sched s)"
proof (induction sched arbitrary: s)
  case Nil
  then show ?case by simp
next
  case (Cons ev sched)
  from inv_complete [OF Cons.prems, of ic ev] show ?case
    using Cons.IH by simp
qed

lemma inv_addTexts:
  "wf_state s \<Longrightarrow> logosOk s \<Longrightarrow> bgBehind s \<Longrightarrow>
   wf_state (addTexts ts s) \<and> logosOk (addTexts ts s) \<and> bgBehind (addTexts ts s)"
proof (induction ts arbitrary: s)
  case Nil
  then show ?case by simp
next
  case (Cons t ts)
  from inv_addNew [OF Cons.prems] show ?case using Cons.IH by simp
qed

lemma inv_initPass:
  assumes "wf_state s"
  shows "wf_state (initPass ic s) \<and> logosOk (initPass ic s) \<and> bgBehind (initPass ic s)"
proof -
  define s0 where "s0 = s\<lparr>backgroundImageRef := None, loadedLogos := 0, logoImages := []\<rparr>"
  have 0: "wf_state s0" "logosOk s0" "bgBehind s0"
    using assms by (simp_all add: s0_def wf_state_def logosOk_def bgBehind_def)
  define s1 where "s1 = (case texts ic of None \<Rightarrow> s0 | Some ts \<Rightarrow> addTexts ts s0)"
  have 1: "wf_state s1" "logosOk s1" "bgBehind s1"
    using 0 inv_addTexts [OF 0] by (simp_all add: s1_def split: option.splits)
  have eq: "initPass ic s
      = (if truthy_bool (showNineBall ic) \<and> \<not> truthy_str (logoUrl ic)
         then createNineBall ic s1 else s1)"
    unfolding initPass_def Let_def s1_def s0_def by (rule refl)
  show ?thesis
    using 1 inv_createNineBall [OF 1(1,2), of ic] by (simp add: eq)
qed

lemma bg_kept_layoutLogos:
  assumes "logosOk s" "backgroundImageRef s = Some g"
  shows "backgroundImageRef (layoutLogos n s) = Some g \<and> heap (layoutLogos n s) ! g = heap s ! g"
proof -
  have "\<forall>w. Some (g, w) \<notin> set (logoImages s)"
    using assms by (auto simp: logosOk_iff)
  then show ?thesis
    using assms(2) by (simp add: layoutLogos_def Let_def positionLogos_other)
qed

lemma bg_kept_onLogoLoaded:
  assumes "wf_state s" "logosOk s" "bgBehind s" "backgroundImageRef s = Some g"
  shows "backgroundImageRef (onLogoLoaded ic n url i img s) = Some g
      \<and> heap (onLogoLoaded ic n url i img s) ! g = heap s ! g"
proof -
  have g: "g < length (heap s)" using assms(1,4) by (simp add: wf_state_def)
  have 3: "logosOk (logoAdded ic url i img s)"
    "backgroundImageRef (logoAdded ic url i img s) = Some g"
    using inv_logoAdded(2) [OF assms(1,2,3)] assms(4) by simp_all
  show ?thesis
    using bg_kept_layoutLogos [OF 3, of n] g assms(4)
    by (simp add: onLogoLoaded_def Let_def nth_append)
qed

lemma bg_kept:
  assumes "wf_state s" "logosOk s" "bgBehind s" "backgroundImageRef s = Some g"
    and "fst ev \<noteq> BgLoad"
  shows "backgroundImageRef (complete ic ev s) = Some g \<and> heap (complete ic ev s) ! g = heap s ! g"
proof -
  have g: "g < length (heap s)" using assms(1,4) by (simp add: wf_state_def)
  obtain l outcome where ev: "ev = (l, outcome)" by (cases ev)
  show ?thesis
  proof (cases outcome)
    case None
    then show ?thesis using ev assms(4,5) g by (cases l) (simp_all add: nth_append)
  next
    case (Some img)
    then show ?thesis
      using ev assms(4,5) g bg_kept_onLogoLoaded [OF assms(1-4)]
      by (cases l)
        (simp_all add: nth_append Let_def onSingleLogoLoaded_def onYoutubeLoaded_def)
  qed
qed

lemma bg_kept_settle:
  "wf_state s \<Longrightarrow> logosOk s \<Longrightarrow> bgBehind s \<Longrightarrow> backgroundImageRef s = Some g \<Longrightarrow>
   BgLoad \<notin> fst ` set sched \<Longrightarrow>
   backgroundImageRef (settle ic sched s) = Some g \<and> heap (settle ic sched s) ! g = heap s ! g"
proof (induction sched arbitrary: s)
  case Nil
  then show ?case by simp
next
  case (Cons ev sched)
  have ne: "fst ev \<noteq> BgLoad" and rest: "BgLoad \<notin> fst ` set sched"
    using Cons.prems(5) by auto
  note inv = inv_complete [OF Cons.prems(1-3), of ic ev]
  note k = bg_kept [OF Cons.prems(1-4) ne, of ic]
  from Cons.IH [of "complete ic ev s"] inv k rest show ?case by simp
qed

text \<open>
  C3: when the descriptor has a background image URL and its load succeeds, then for
  every order in which the loads of the callback complete, each exactly once and each
  with either outcome, the object list of the canvas afterwards starts with the
  background image: it is the back-most object.
\<close>

theorem background_is_backmost:
  assumes "wf_state s0" and "truthy_str (backgroundImageUrl ic)"
    and "settles ic sched" and "(BgLoad, Some bgImg) \<in> set sched"
  shows "\<exists>g rest.
      backgroundImageRef (settle ic sched (initPass ic s0)) = Some g
    \<and> cv_objects (settle ic sched (initPass ic s0)) = g # rest
    \<and> heap (settle ic sched (initPass ic s0)) ! g = FabricImage (backgroundImage bgImg)"
proof -
  obtain pre post where split: "sched = pre @ (BgLoad, Some bgImg) # post"
    using assms(4) by (auto dest: split_list)
  have "distinct (map fst sched)" using assms(3) by (simp add: settles_def)
  then have post: "BgLoad \<notin> fst ` set post" by (simp add: split)
  define s1 where "s1 = settle ic pre (initPass ic s0)"
  define s2 where "s2 = onBackgroundLoaded bgImg s1"
  define g where "g = length (heap s1)"
  have 1: "wf_state s1" "logosOk s1" "bgBehind s1"
    using inv_initPass [OF assms(1), of ic] inv_settle [of "initPass ic s0" ic pre]
    by (simp_all add: s1_def)
  have 2: "wf_state s2" "logosOk s2" "bgBehind s2"
    using inv_onBackgroundLoaded [OF 1(1,2), of bgImg] by (simp_all add: s2_def)
  have b2: "backgroundImageRef s2 = Some g" "heap s2 ! g = FabricImage (backgroundImage bgImg)"
    by (simp_all add: s2_def g_def)
  have fin: "settle ic sched (initPass ic s0) = settle ic post s2"
    by (simp add: split settle_append s1_def s2_def)
  have k: "backgroundImageRef (settle ic post s2) = Some g"
    "heap (settle ic post s2) ! g = FabricImage (backgroundImage bgImg)"
    using bg_kept_settle [OF 2 b2(1) post, of ic] b2(2) by simp_all
  have "bgBehind (settle ic post s2)" using inv_settle [OF 2, of ic post] by simp
  then have "cv_objects (settle ic post s2) = g # tl (cv_objects (settle ic post s2))"
    using k(1) by (cases "cv_objects (settle ic post s2)") (auto simp: bgBehind_def)
  with k show ?thesis unfolding fin by blast
qed

theorem background_is_backmost_witness:
  "wf_state (new_Canvas ''#FFFFFF'')
   \<and> truthy_str (backgroundImageUrl tab6)
   \<and> settles tab6 tab6Schedule
   \<and> (BgLoad, Some bg1920x1080) \<in> set tab6Schedule
   \<and> backgroundImageRef (settle tab6 tab6Schedule (initPass tab6 (new_Canvas ''#FFFFFF''))) = Some 4
   \<and> cv_objects (settle tab6 tab6Schedule (initPass tab6 (new_Canvas ''#FFFFFF'')))
       = [4, 0, 1, 2, 3, 5]
   \<and> heap (settle tab6 tab6Schedule (initPass tab6 (new_Canvas ''#FFFFFF''))) ! 4
       = FabricImage (backgroundImage bg1920x1080)"
proof -
  have h: "wf_state (new_Canvas ''#FFFFFF'')" "truthy_str (backgroundImageUrl tab6)"
    "settles tab6 tab6Schedule" "(BgLoad, Some bg1920x1080) \<in> set tab6Schedule"
    by code_simp+
  have e: "backgroundImageRef (settle tab6 tab6Schedule (initPass tab6 (new_Canvas ''#FFFFFF''))) = Some 4"
    "cv_objects (settle tab6 tab6Schedule (initPass tab6 (new_Canvas ''#FFFFFF'')))
       = [4, 0, 1, 2, 3, 5]"
    "heap (settle tab6 tab6Schedule (initPass tab6 (new_Canvas ''#FFFFFF''))) ! 4
       = FabricImage (backgroundImage bg1920x1080)"
    by code_simp+
  from background_is_backmost [OF h] show ?thesis using h e by simp
qed

section \<open>The one-shot initialization\<close>

text \<open>While the guard is set, a run of the effect schedules no initialization.\<close>

lemma guard_blocks: "initializedRef c \<Longrightarrow> initTimers (effect ic c) = initTimers c"
  by (simp add: effect_def Let_def)

text \<open>But every cleanup resets the guard, and a scheduled initialization is never cancelled.\<close>

lemma cleanup_reopens:
  "\<not> initializedRef (cleanup c) \<and> initTimers (cleanup c) = initTimers c"
  by (simp add: cleanup_def)

text \<open>
  One mount, and a remount that comes after the timer of the first mount has fired, give
  a scene with the content once.
\<close>

lemma single_mount_once:
  "map_option scene (fabricCanvasRef (run (Some tab2) [EffectRun, InitTimer] mountComponent))
     = Some (map (\<lambda>t. Textbox (textObject t)) (the (texts tab2)))"
  by code_simp

lemma slow_remount_once:
  "map_option scene (fabricCanvasRef
       (run (Some tab2) [EffectRun, InitTimer, Cleanup, EffectRun, InitTimer] mountComponent))
     = Some (map (\<lambda>t. Textbox (textObject t)) (the (texts tab2)))"
  by code_simp

text \<open>
  C5 is not met by the code: when the effect is cleaned up and runs again before the
  first timer fires, both scheduled initializations run on the canvas of the second
  mount, and the scene holds the two text boxes of the descriptor twice.
\<close>

theorem remount_duplicates_content:
  "react_order False remountTrace
   \<and> initTimers (run (Some tab2) remountTrace mountComponent) = 0
   \<and> map_option scene (fabricCanvasRef (run (Some tab2) remountTrace mountComponent))
       = Some (map (\<lambda>t. Textbox (textObject t)) (the (texts tab2) @ the (texts tab2)))
   \<and> map_option (length \<circ> cv_objects)
         (fabricCanvasRef (run (Some tab2) remountTrace mountComponent)) = Some 4
   \<and> length (the (texts tab2)) = 2"
  by code_simp

section \<open>Placing several logos\<close>

lemma sumWidths_full: "sumWidths (map Some es) acc = foldl (\<lambda>a e. a + snd e) acc es"
  by (induction es arbitrary: acc) auto

lemma foldl_widths:
  assumes "map snd es = map W [0..<k]" and "j \<le> k"
  shows "foldl (\<lambda>a e. f a (snd e)) x (take j es) = foldl (\<lambda>a i. f a (W i)) x [0..<j]"
proof -
  have "foldl (\<lambda>a e. f a (snd e)) x (take j es) = foldl f x (map snd (take j es))"
    by (simp add: foldl_map)
  also have "map snd (take j es) = take j (map W [0..<k])"
    unfolding assms(1) [symmetric] by (rule take_map [symmetric])
  also have "\<dots> = map W [0..<j]"
    using assms(2) by (simp add: take_map)
  finally show ?thesis by (simp add: foldl_map)
qed

lemma length_js_set: "length (js_set xs i v) = max (length xs) (Suc i)"
  by (auto simp: js_set_def)

lemma nth_js_set:
  "j < length (js_set xs i v) \<Longrightarrow>
   js_set xs i v ! j = (if j = i then Some v else if j < length xs then xs ! j else None)"
  by (auto simp: js_set_def nth_append)

lemma img_set_hit:
  "r < length h \<Longrightarrow> h ! r = FabricImage p \<Longrightarrow> img_set f r h ! r = FabricImage (f p)"
  by (simp add: img_set_def)

lemma positionLogos_nth:
  "distinct (map fst es) \<Longrightarrow>
   \<forall>e\<in>set es. fst e < length h \<and> (\<exists>p. h ! fst e = FabricImage p) \<Longrightarrow>
   j < length es \<Longrightarrow>
   \<exists>p. h ! fst (es ! j) = FabricImage p
     \<and> positionLogos (map Some es) x h ! fst (es ! j)
         = FabricImage
             (p\<lparr>im_left := Some (foldl (\<lambda>a e. a + (snd e + 30)) x (take j es) + snd (es ! j) / 2),
                im_top := Some 100,
                im_originX := Some OriginCenter, im_originY := Some OriginTop\<rparr>)"
proof (induction es arbitrary: x h j)
  case Nil
  then show ?case by simp
next
  case (Cons e es)
  obtain r w where e: "e = (r, w)" by (cases e)
  let ?f = "\<lambda>p. p\<lparr>im_left := Some (x + w / 2), im_top := Some 100,
                     im_originX := Some OriginCenter, im_originY := Some OriginTop\<rparr>"
  let ?h1 = "img_set ?f r h"
  from Cons.prems(2) e obtain p0 where r: "r < length h" "h ! r = FabricImage p0" by auto
  have notin: "\<forall>w'. Some (r, w') \<notin> set (map Some es)"
    using Cons.prems(1) e by (auto simp: image_iff)
  show ?case
  proof (cases j)
    case 0
    have "positionLogos (map Some (e # es)) x h ! r = ?h1 ! r"
      using notin by (simp add: e positionLogos_other)
    also have "\<dots> = FabricImage (?f p0)" using r by (rule img_set_hit)
    finally show ?thesis using 0 e r by simp
  next
    case (Suc j')
    have d: "distinct (map fst es)" using Cons.prems(1) by simp
    have ok: "\<forall>e'\<in>set es. fst e' < length ?h1 \<and> (\<exists>p. ?h1 ! fst e' = FabricImage p)"
    proof
      fix e' assume m: "e' \<in> set es"
      then have "fst e' \<noteq> r" using Cons.prems(1) e by auto
      then show "fst e' < length ?h1 \<and> (\<exists>p. ?h1 ! fst e' = FabricImage p)"
        using Cons.prems(2) m by (simp add: img_set_other)
    qed
    have j': "j' < length es" using Cons.prems(3) Suc by simp
    from Cons.IH [OF d ok j', of "x + (w + 30)"] obtain p where
      p: "?h1 ! fst (es ! j') = FabricImage p"
      "positionLogos (map Some es) (x + (w + 30)) ?h1 ! fst (es ! j')
         = FabricImage
             (p\<lparr>im_left := Some (foldl (\<lambda>a e. a + (snd e + 30)) (x + (w + 30)) (take j' es)
                                  + snd (es ! j') / 2),
                im_top := Some 100,
                im_originX := Some OriginCenter, im_originY := Some OriginTop\<rparr>)"
      by blast
    have "fst (es ! j') \<noteq> r" using Cons.prems(1) e j' by auto
    then have hp: "h ! fst (es ! j') = FabricImage p" using p(1) by (simp add: img_set_other)
    show ?thesis using hp p(2) Suc e by simp
  qed
qed

lemma logosBase_logoAdded:
  assumes base: "logosBase W k D s" and i: "i \<notin> D" "i < k"
    and W: "W i = multiScaledWidth ic url img"
    and bound: "list_all (\<lambda>r. r < length (heap s)) (cv_objects s)"
  shows "logosBase W k (insert i D) (logoAdded ic url i img s)"
proof -
  let ?s' = "logoAdded ic url i img s"
  let ?r = "length (heap s)"
  have D: "D \<subseteq> {..<k}" "length (logoImages s) \<le> k" "loadedLogos s = card D"
    and none: "\<forall>j<length (logoImages s). logoImages s ! j \<noteq> None \<longrightarrow> j \<in> D"
    and ent: "\<forall>j\<in>D. j < length (logoImages s)
            \<and> (\<exists>r p. logoImages s ! j = Some (r, W j) \<and> r < length (heap s)
                  \<and> r \<in> set (cv_objects s) \<and> heap s ! r = FabricImage p
                  \<and> im_width p * im_scale p = W j)"
    and dis: "\<forall>a\<in>D. \<forall>b\<in>D. a \<noteq> b \<longrightarrow>
            fst (the (logoImages s ! a)) \<noteq> fst (the (logoImages s ! b))"
    using base by (simp_all add: logosBase_def)
  have fin: "finite D" using D(1) by (rule finite_subset) simp
  let ?L = "js_set (logoImages s) i (?r, W i)"
  have L: "logoImages ?s' = ?L" by (simp add: W)
  have H: "heap ?s' = heap s @ [FabricImage (withBorder ic
                   (scaledImage img (fitScale (multiMaxLogoWidth ic url) img)))]"
    and O: "cv_objects ?s' = cv_objects s @ [?r]" by simp_all
  have len: "length ?L = max (length (logoImages s)) (Suc i)"
    by (rule length_js_set)
  have nth: "?L ! j
      = (if j = i then Some (?r, W i) else if j < length (logoImages s) then logoImages s ! j else None)"
    if "j < length ?L" for j
    using that by (rule nth_js_set)
  have 1: "insert i D \<subseteq> {..<k}" using D(1) i(2) by simp
  have 2: "length ?L \<le> k" using D(2) i(2) by (simp add: len)
  have 3: "loadedLogos ?s' = card (insert i D)" using D(3) fin i(1) by simp
  have 4: "\<forall>j<length ?L. ?L ! j \<noteq> None \<longrightarrow> j \<in> insert i D"
    using none by (auto simp: nth)
  have wi: "im_width (withBorder ic (scaledImage img (fitScale (multiMaxLogoWidth ic url) img)))
      * im_scale (withBorder ic (scaledImage img (fitScale (multiMaxLogoWidth ic url) img))) = W i"
    by (simp add: W multiScaledWidth_def scaledImage_def nz_def)
  have new: "i < length ?L \<and> ?L ! i = Some (?r, W i)
      \<and> ?r < length (heap ?s') \<and> ?r \<in> set (cv_objects ?s')
      \<and> (\<exists>p. heap ?s' ! ?r = FabricImage p \<and> im_width p * im_scale p = W i)"
    using wi by (simp add: len nth H O)
  have old: "j < length ?L
      \<and> (\<exists>r p. ?L ! j = Some (r, W j) \<and> r < length (heap s)
            \<and> r \<in> set (cv_objects ?s') \<and> heap ?s' ! r = FabricImage p
            \<and> im_width p * im_scale p = W j)" if "j \<in> D" for j
  proof -
    from ent that obtain r p where e: "j < length (logoImages s)" "logoImages s ! j = Some (r, W j)"
      "r < length (heap s)" "r \<in> set (cv_objects s)" "heap s ! r = FabricImage p"
      "im_width p * im_scale p = W j" by blast
    have "j \<noteq> i" using that i(1) by auto
    then show ?thesis using e by (auto simp: len nth nth_append H O)
  qed
  have 5: "\<forall>j\<in>insert i D. j < length ?L
            \<and> (\<exists>r p. ?L ! j = Some (r, W j) \<and> r < length (heap ?s')
                  \<and> r \<in> set (cv_objects ?s') \<and> heap ?s' ! r = FabricImage p
                  \<and> im_width p * im_scale p = W j)"
  proof
    fix j assume "j \<in> insert i D"
    then consider "j = i" | "j \<in> D" by auto
    then show "j < length ?L
            \<and> (\<exists>r p. ?L ! j = Some (r, W j) \<and> r < length (heap ?s')
                  \<and> r \<in> set (cv_objects ?s') \<and> heap ?s' ! r = FabricImage p
                  \<and> im_width p * im_scale p = W j)"
    proof cases
      case 1
      then show ?thesis using new by blast
    next
      case 2
      from old [OF 2] obtain r p where "j < length ?L"
        "?L ! j = Some (r, W j)" "r < length (heap s)"
        "r \<in> set (cv_objects ?s')" "heap ?s' ! r = FabricImage p"
        "im_width p * im_scale p = W j" by blast
      moreover from this have "r < length (heap ?s')" by (simp add: H)
      ultimately show ?thesis by blast
    qed
  qed
  have ref: "fst (the (?L ! j)) = (if j = i then ?r else fst (the (logoImages s ! j)))
      \<and> (j \<noteq> i \<longrightarrow> fst (the (logoImages s ! j)) < ?r)"
    if "j \<in> insert i D" for j
  proof (cases "j = i")
    case True
    then show ?thesis using new by simp
  next
    case False
    then have "j \<in> D" using that by simp
    with ent obtain r p where "j < length (logoImages s)" "logoImages s ! j = Some (r, W j)"
      "r < length (heap s)" by blast
    then show ?thesis using False by (simp add: len nth)
  qed
  have 6: "\<forall>a\<in>insert i D. \<forall>b\<in>insert i D. a \<noteq> b \<longrightarrow>
            fst (the (?L ! a)) \<noteq> fst (the (?L ! b))"
  proof (intro ballI impI)
    fix a b assume ab: "a \<in> insert i D" "b \<in> insert i D" "a \<noteq> b"
    show "fst (the (?L ! a)) \<noteq> fst (the (?L ! b))"
      using ref [OF ab(1)] ref [OF ab(2)] ab dis by (auto split: if_splits)
  qed
  from 1 2 3 4 5 6 show ?thesis unfolding logosBase_def L by blast
qed


lemma layoutLogos_fields [simp]:
  "heap (layoutLogos n s) = positionLogos (logoImages s) (startX (logoImages s) n) (heap s)"
  "logoImages (layoutLogos n s) = logoImages s"
  "loadedLogos (layoutLogos n s) = loadedLogos s"
  "backgroundImageRef (layoutLogos n s) = backgroundImageRef s"
  by (simp_all add: layoutLogos_def Let_def)

lemma layoutLogos_keeps:
  "r \<in> set (cv_objects s) \<Longrightarrow> r \<in> set (cv_objects (layoutLogos n s))"
  by (simp add: layoutLogos_def Let_def keepBackgroundBehind_keeps)

lemma logos_layout:
  assumes base: "logosBase W k {..<k} s"
  shows "logosBase W k {..<k} (layoutLogos k s) \<and> logosPlaced W k (layoutLogos k s)"
proof -
  let ?s' = "layoutLogos k s"
  have le: "length (logoImages s) \<le> k" and cnt: "loadedLogos s = card {..<k}"
    and none: "\<forall>j<length (logoImages s). logoImages s ! j \<noteq> None \<longrightarrow> j \<in> {..<k}"
    and ent: "\<forall>j\<in>{..<k}. j < length (logoImages s)
            \<and> (\<exists>r p. logoImages s ! j = Some (r, W j) \<and> r < length (heap s)
                  \<and> r \<in> set (cv_objects s) \<and> heap s ! r = FabricImage p
                  \<and> im_width p * im_scale p = W j)"
    and dis: "\<forall>a\<in>{..<k}. \<forall>b\<in>{..<k}. a \<noteq> b \<longrightarrow>
            fst (the (logoImages s ! a)) \<noteq> fst (the (logoImages s ! b))"
    using base by (simp_all add: logosBase_def)
  define es where "es = map (\<lambda>i. the (logoImages s ! i)) [0..<k]"
  have len: "length (logoImages s) = k"
  proof (cases k)
    case 0
    then show ?thesis using le by simp
  next
    case (Suc n)
    then have "n < length (logoImages s)" using ent by simp
    then show ?thesis using le Suc by simp
  qed
  have e: "\<exists>r p. logoImages s ! j = Some (r, W j) \<and> r < length (heap s)
                  \<and> r \<in> set (cv_objects s) \<and> heap s ! r = FabricImage p
                  \<and> im_width p * im_scale p = W j" if "j < k" for j
    using ent that by simp
  have les: "length es = k" by (simp add: es_def)
  have es_nth: "logoImages s ! j = Some (es ! j) \<and> snd (es ! j) = W j" if "j < k" for j
    using e [OF that] that by (auto simp: es_def)
  have L: "logoImages s = map Some es"
    by (rule nth_equalityI) (simp_all add: len les es_nth)
  have d: "distinct (map fst es)"
    unfolding distinct_conv_nth
  proof (intro allI impI)
    fix a b assume ab: "a < length (map fst es)" "b < length (map fst es)" "a \<noteq> b"
    then have "fst (the (logoImages s ! a)) \<noteq> fst (the (logoImages s ! b))"
      using dis les by simp
    then show "map fst es ! a \<noteq> map fst es ! b"
      using ab les by (simp add: es_def)
  qed
  have ok: "\<forall>x\<in>set es. fst x < length (heap s) \<and> (\<exists>p. heap s ! fst x = FabricImage p)"
  proof
    fix x assume "x \<in> set es"
    then obtain j where j: "j < k" "x = es ! j" using les by (auto simp: in_set_conv_nth)
    from e [OF j(1)] es_nth [OF j(1)] j(2)
    show "fst x < length (heap s) \<and> (\<exists>p. heap s ! fst x = FabricImage p)" by auto
  qed
  have ws: "map snd es = map W [0..<k]"
    by (rule nth_equalityI) (simp_all add: les es_nth)
  have "foldl (\<lambda>a e. a + snd e) 0 es = foldl (\<lambda>a i. a + W i) 0 [0..<k]"
    using foldl_widths [OF ws order_refl, of "(+)" 0] les by simp
  then have start: "startX (logoImages s) k = groupStart W k"
    by (simp add: startX_def totalWidth_def groupStart_def groupWidth_def L sumWidths_full)
  have H: "heap ?s' = positionLogos (map Some es) (groupStart W k) (heap s)"
    by (simp add: start) (simp add: L)
  have pos: "\<exists>r p. logoImages s ! j = Some (r, W j) \<and> r < length (heap s)
        \<and> r \<in> set (cv_objects s)
        \<and> heap s ! r = FabricImage p \<and> im_width p * im_scale p = W j
        \<and> heap ?s' ! r
            = FabricImage (p\<lparr>im_left := Some (logoEdge W k j + W j / 2),
                             im_top := Some 100,
                             im_originX := Some OriginCenter, im_originY := Some OriginTop\<rparr>)"
    if j: "j < k" for j
  proof -
    from e [OF j] obtain r p where rp: "logoImages s ! j = Some (r, W j)" "r < length (heap s)"
      "r \<in> set (cv_objects s)" "heap s ! r = FabricImage p" "im_width p * im_scale p = W j"
      by blast
    have "es ! j = (r, W j)" using es_nth [OF j] rp(1) by simp
    then have r: "fst (es ! j) = r" and w: "snd (es ! j) = W j" by simp_all
    have "foldl (\<lambda>a e. a + (snd e + 30)) (groupStart W k) (take j es) = logoEdge W k j"
      using foldl_widths [OF ws, of j "\<lambda>a w. a + (w + 30)" "groupStart W k"] j
      by (simp add: logoEdge_def)
    with positionLogos_nth [OF d ok, of j "groupStart W k"] j les rp(4) r w
    have "heap ?s' ! r
            = FabricImage (p\<lparr>im_left := Some (logoEdge W k j + W j / 2),
                             im_top := Some 100,
                             im_originX := Some OriginCenter, im_originY := Some OriginTop\<rparr>)"
      unfolding H by auto
    with rp show ?thesis by blast
  qed
  have placed: "logosPlaced W k ?s'"
    unfolding logosPlaced_def
  proof (intro allI impI)
    fix j assume j: "j < k"
    from pos [OF j] show "j < length (logoImages ?s')
        \<and> (\<exists>r p. logoImages ?s' ! j = Some (r, W j) \<and> r < length (heap ?s')
              \<and> heap ?s' ! r = FabricImage p
              \<and> im_left p = Some (logoEdge W k j + W j / 2)
              \<and> im_top p = Some 100
              \<and> im_originX p = Some OriginCenter \<and> im_originY p = Some OriginTop)"
      using j len by (auto simp: H)
  qed
  have ent': "\<forall>j\<in>{..<k}. j < length (logoImages ?s')
            \<and> (\<exists>r p. logoImages ?s' ! j = Some (r, W j) \<and> r < length (heap ?s')
                  \<and> r \<in> set (cv_objects ?s') \<and> heap ?s' ! r = FabricImage p
                  \<and> im_width p * im_scale p = W j)"
  proof
    fix j assume "j \<in> {..<k}"
    then have j: "j < k" by simp
    from pos [OF j] obtain r p where rp: "logoImages s ! j = Some (r, W j)" "r < length (heap s)"
      "r \<in> set (cv_objects s)" "im_width p * im_scale p = W j"
      "heap ?s' ! r
            = FabricImage (p\<lparr>im_left := Some (logoEdge W k j + W j / 2),
                             im_top := Some 100,
                             im_originX := Some OriginCenter, im_originY := Some OriginTop\<rparr>)"
      by blast
    have "r \<in> set (cv_objects ?s')" using rp(3) by (rule layoutLogos_keeps)
    moreover have "r < length (heap ?s')" using rp(2) by (simp add: H)
    ultimately show "j < length (logoImages ?s')
            \<and> (\<exists>r p. logoImages ?s' ! j = Some (r, W j) \<and> r < length (heap ?s')
                  \<and> r \<in> set (cv_objects ?s') \<and> heap ?s' ! r = FabricImage p
                  \<and> im_width p * im_scale p = W j)"
      using rp j len by auto
  qed
  have "logosBase W k {..<k} ?s'"
    unfolding logosBase_def using le cnt none ent' dis by simp
  with placed show ?thesis by simp
qed

lemma logos_frame:
  assumes "logoImages s' = logoImages s" and "loadedLogos s' = loadedLogos s"
    and "heap s' = heap s @ extra" and "set (cv_objects s) \<subseteq> set (cv_objects s')"
  shows "logosBase W k D s \<Longrightarrow> logosBase W k D s'"
    and "logosPlaced W k s \<Longrightarrow> logosPlaced W k s'"
proof -
  have old: "r < length (heap s) \<Longrightarrow> heap s' ! r = heap s ! r \<and> r < length (heap s')" for r
    using assms(3) by (simp add: nth_append)
  show "logosBase W k D s \<Longrightarrow> logosBase W k D s'"
    unfolding logosBase_def assms(1,2)
    using old assms(4) by (auto; metis subsetD)
  show "logosPlaced W k s \<Longrightarrow> logosPlaced W k s'"
    unfolding logosPlaced_def assms(1)
    using old by (auto; metis)
qed


lemma createNineBall_keeps:
  assumes "wf_state s"
  shows "set (cv_objects s) \<subseteq> set (cv_objects (createNineBall ic s))"
proof
  fix r assume r: "r \<in> set (cv_objects s)"
  let ?N = "filter (\<lambda>r. \<not> isTextRef (heap s) r) (cv_objects s)"
  have "r \<in> set ?N \<or> r \<in> set (filter (isTextRef (heap s)) (cv_objects s))"
    using r by auto
  moreover have "r \<in> set ?N \<Longrightarrow> r = g \<or> r \<in> set (remove1 g ?N)" for g
    by (cases "r = g") simp_all
  ultimately show "r \<in> set (cv_objects (createNineBall ic s))"
    unfolding createNineBall_objects [OF assms]
    by (cases "backgroundImageRef s") auto
qed

lemma complete_frame:
  assumes "wf_state s" and "\<forall>i img. ev \<noteq> (LogoLoad i, Some img)"
  shows "logoImages (complete ic ev s) = logoImages s
    \<and> loadedLogos (complete ic ev s) = loadedLogos s
    \<and> (\<exists>extra. heap (complete ic ev s) = heap s @ extra)
    \<and> set (cv_objects s) \<subseteq> set (cv_objects (complete ic ev s))"
proof -
  obtain l outcome where ev: "ev = (l, outcome)" by (cases ev)
  have nine: "logoImages (createNineBall ic s) = logoImages s
    \<and> loadedLogos (createNineBall ic s) = loadedLogos s
    \<and> (\<exists>extra. heap (createNineBall ic s) = heap s @ extra)
    \<and> set (cv_objects s) \<subseteq> set (cv_objects (createNineBall ic s))"
    using createNineBall_keeps [OF assms(1), of ic] by simp
  show ?thesis
  proof (cases outcome)
    case None
    then show ?thesis using ev nine by (cases l) simp_all
  next
    case (Some img)
    show ?thesis
    proof (cases l)
      case BgLoad
      then show ?thesis using ev Some by (auto simp: set_sendToBack)
    next
      case (LogoLoad i)
      then show ?thesis using ev Some assms(2) by simp
    next
      case SingleLogoLoad
      have "set (cv_objects s) \<subseteq> set (cv_objects (onSingleLogoLoaded ic img s))"
        by (auto simp: onSingleLogoLoaded_def intro: keepBackgroundBehind_keeps)
      then show ?thesis using ev Some SingleLogoLoad by (simp add: onSingleLogoLoaded_def)
    next
      case YoutubeLoad
      have "set (cv_objects s) \<subseteq> set (cv_objects (onYoutubeLoaded ic img s))"
        by (auto simp: onYoutubeLoaded_def Let_def intro: keepBackgroundBehind_keeps)
      then show ?thesis using ev Some YoutubeLoad by (simp add: onYoutubeLoaded_def Let_def)
    next
      case NineBallLogoLoad
      then show ?thesis using ev nine by simp
    qed
  qed
qed

lemma logos_step_other:
  assumes "wf_state s" and "\<forall>i img. ev \<noteq> (LogoLoad i, Some img)"
    and "logosBase W k D s" and "D = {..<k} \<longrightarrow> logosPlaced W k s"
  shows "logosBase W k D (complete ic ev s)
    \<and> (D = {..<k} \<longrightarrow> logosPlaced W k (complete ic ev s))"
proof -
  from complete_frame [OF assms(1,2), of ic] obtain extra where
    f: "logoImages (complete ic ev s) = logoImages s"
      "loadedLogos (complete ic ev s) = loadedLogos s"
      "heap (complete ic ev s) = heap s @ extra"
      "set (cv_objects s) \<subseteq> set (cv_objects (complete ic ev s))"
    by blast
  show ?thesis
    using logos_frame [OF f, of W k] assms(3,4) by blast
qed

lemma logos_step_logo:
  assumes "wf_state s" and "logosBase W k D s" and "i \<notin> D" and "i < k"
    and "W i = multiScaledWidth ic url img"
  shows "logosBase W k (insert i D) (onLogoLoaded ic k url i img s)
    \<and> (insert i D = {..<k} \<longrightarrow> logosPlaced W k (onLogoLoaded ic k url i img s))"
proof -
  let ?s3 = "logoAdded ic url i img s"
  have bound: "list_all (\<lambda>r. r < length (heap s)) (cv_objects s)"
    using assms(1) by (simp add: wf_state_def)
  have b3: "logosBase W k (insert i D) ?s3"
    by (rule logosBase_logoAdded [OF assms(2-5) bound])
  then have sub: "insert i D \<subseteq> {..<k}" and cnt: "loadedLogos ?s3 = card (insert i D)"
    by (simp_all add: logosBase_def)
  have full: "loadedLogos ?s3 = k \<longleftrightarrow> insert i D = {..<k}"
  proof
    assume "loadedLogos ?s3 = k"
    then have "card (insert i D) = card {..<k}" using cnt by simp
    with sub show "insert i D = {..<k}" by (intro card_subset_eq) simp_all
  next
    assume "insert i D = {..<k}"
    then show "loadedLogos ?s3 = k" using cnt by simp
  qed
  show ?thesis
  proof (cases "insert i D = {..<k}")
    case True
    then have "logosBase W k {..<k} ?s3" using b3 by simp
    from logos_layout [OF this] show ?thesis
      using True full by (simp add: onLogoLoaded_def Let_def)
  next
    case False
    then show ?thesis using b3 full by (simp add: onLogoLoaded_def Let_def)
  qed
qed

lemma logos_settle:
  assumes "\<forall>i oc. (LogoLoad i, oc) \<in> set sched \<longrightarrow>
             i < length (nullish (logoUrls ic) []) \<and> oc = Some (imgs i)"
    and "distinct (map fst sched)"
    and "\<forall>i. LogoLoad i \<in> fst ` set sched \<longrightarrow> i \<notin> D"
    and "wf_state s" and "logosOk s" and "bgBehind s"
    and "logosBase (scaledWidths ic imgs)
           (length (nullish (logoUrls ic) [])) D s"
    and "D = {..<length (nullish (logoUrls ic) [])} \<longrightarrow>
         logosPlaced (scaledWidths ic imgs)
           (length (nullish (logoUrls ic) [])) s"
  shows "logosBase (scaledWidths ic imgs)
           (length (nullish (logoUrls ic) []))
           (D \<union> {i. LogoLoad i \<in> fst ` set sched}) (settle ic sched s)
    \<and> (D \<union> {i. LogoLoad i \<in> fst ` set sched} = {..<length (nullish (logoUrls ic) [])} \<longrightarrow>
         logosPlaced (scaledWidths ic imgs)
           (length (nullish (logoUrls ic) [])) (settle ic sched s))"
  using assms
proof (induction sched arbitrary: s D)
  case Nil
  then show ?case by simp
next
  case (Cons ev sched)
  let ?us = "nullish (logoUrls ic) []"
  let ?W = "scaledWidths ic imgs"
  let ?k = "length ?us"
  let ?s' = "complete ic ev s"
  note inv = inv_complete [OF Cons.prems(4-6), of ic ev]
  have H': "\<forall>i oc. (LogoLoad i, oc) \<in> set sched \<longrightarrow> i < ?k \<and> oc = Some (imgs i)"
    using Cons.prems(1) by simp
  have d': "distinct (map fst sched)" and nev: "fst ev \<notin> fst ` set sched"
    using Cons.prems(2) by simp_all
  show ?case
  proof (cases "\<exists>i img. ev = (LogoLoad i, Some img)")
    case True
    then obtain i img where ev: "ev = (LogoLoad i, Some img)" by blast
    have i: "i < ?k" "img = imgs i" using Cons.prems(1) ev by auto
    have iD: "i \<notin> D" using Cons.prems(3) ev by force
    have step: "logosBase ?W ?k (insert i D) ?s'
        \<and> (insert i D = {..<?k} \<longrightarrow> logosPlaced ?W ?k ?s')"
    proof -
      have Wi: "?W i = multiScaledWidth ic (?us ! i) img"
        using i(2) by (simp add: scaledWidths_def)
      from logos_step_logo [OF Cons.prems(4,7) iD i(1) Wi] i(1)
      show ?thesis by (simp add: ev Let_def)
    qed
    have fresh: "\<forall>j. LogoLoad j \<in> fst ` set sched \<longrightarrow> j \<notin> insert i D"
      using Cons.prems(3) nev ev by auto
    have "D \<union> {j. LogoLoad j \<in> fst ` set (ev # sched)}
        = insert i D \<union> {j. LogoLoad j \<in> fst ` set sched}"
      using ev by auto
    with Cons.IH [OF H' d' fresh _ _ _ conjunct1 [OF step] conjunct2 [OF step]] inv
    show ?thesis by simp
  next
    case False
    then have no: "\<forall>i img. ev \<noteq> (LogoLoad i, Some img)" by blast
    have step: "logosBase ?W ?k D ?s' \<and> (D = {..<?k} \<longrightarrow> logosPlaced ?W ?k ?s')"
      by (rule logos_step_other [OF Cons.prems(4) no Cons.prems(7,8)])
    have fresh: "\<forall>j. LogoLoad j \<in> fst ` set sched \<longrightarrow> j \<notin> D"
      using Cons.prems(3) by auto
    have nl: "fst ev \<noteq> LogoLoad j" for j
    proof
      assume "fst ev = LogoLoad j"
      then obtain oc where "ev = (LogoLoad j, oc)" by (cases ev) auto
      with Cons.prems(1) no show False by auto
    qed
    have "D \<union> {j. LogoLoad j \<in> fst ` set (ev # sched)}
        = D \<union> {j. LogoLoad j \<in> fst ` set sched}"
    proof -
      have "{j. LogoLoad j \<in> fst ` set (ev # sched)} = {j. LogoLoad j \<in> fst ` set sched}"
        using nl by (auto simp: eq_commute [of "LogoLoad _"])
      then show ?thesis by simp
    qed
    with Cons.IH [OF H' d' fresh _ _ _ conjunct1 [OF step] conjunct2 [OF step]] inv
    show ?thesis by simp
  qed
qed

section \<open>The layout of several logos, for every order of completion\<close>

lemma initPass_logo_fields [simp]:
  "logoImages (initPass ic s) = []" "loadedLogos (initPass ic s) = 0"
  by (simp_all add: initPass_def Let_def split: option.splits)

lemma logo_loads:
  assumes "logoUrls ic = Some us" and "us \<noteq> []"
  shows "LogoLoad i \<in> set (loads ic) \<longleftrightarrow> i < length us"
  using assms by (auto simp: loads_def hasLogoUrls_def nullish_def)

lemma logos_all_placed:
  assumes "wf_state s0" and "logoUrls ic = Some us" and "us \<noteq> []"
    and "distinct (map fst sched)" and "set (map fst sched) \<subseteq> set (loads ic)"
    and "\<forall>i<length us. (LogoLoad i, Some (imgs i)) \<in> set sched"
  shows "logosBase (scaledWidths ic imgs) (length us) {..<length us}
           (settle ic sched (initPass ic s0))
    \<and> logosPlaced (scaledWidths ic imgs) (length us) (settle ic sched (initPass ic s0))"
proof -
  let ?k = "length us"
  let ?W = "scaledWidths ic imgs"
  let ?fin = "settle ic sched (initPass ic s0)"
  have us: "nullish (logoUrls ic) [] = us" using assms(2) by (simp add: nullish_def)
  note dist = assms(4) and started = assms(5)
  have H: "\<forall>i oc. (LogoLoad i, oc) \<in> set sched \<longrightarrow> i < ?k \<and> oc = Some (imgs i)"
  proof (intro allI impI)
    fix i oc assume m: "(LogoLoad i, oc) \<in> set sched"
    then have "LogoLoad i \<in> set (map fst sched)" by force
    then have i: "i < ?k" using started logo_loads [OF assms(2,3)] by auto
    then have "(LogoLoad i, Some (imgs i)) \<in> set sched" using assms(6) by simp
    with dist m have "oc = Some (imgs i)" by (rule eq_key_imp_eq_value)
    with i show "i < ?k \<and> oc = Some (imgs i)" by simp
  qed
  have D: "{} \<union> {i. LogoLoad i \<in> fst ` set sched} = {..<?k}"
  proof -
    have "i < ?k" if "LogoLoad i \<in> fst ` set sched" for i
      using that started logo_loads [OF assms(2,3)] by auto
    moreover have "LogoLoad i \<in> fst ` set sched" if "i < ?k" for i
      using that assms(6) by force
    ultimately show ?thesis by auto
  qed
  have init: "wf_state (initPass ic s0)" "logosOk (initPass ic s0)" "bgBehind (initPass ic s0)"
    using inv_initPass [OF assms(1), of ic] by simp_all
  have base0: "logosBase ?W ?k {} (initPass ic s0)"
    by (simp add: logosBase_def)
  have fresh: "\<forall>i. LogoLoad i \<in> fst ` set sched \<longrightarrow> i \<notin> {}" by simp
  have placed0: "{} = {..<?k} \<longrightarrow> logosPlaced ?W ?k (initPass ic s0)"
    using assms(3) by auto
  note L = logos_settle [of sched ic imgs "{}" "initPass ic s0", unfolded us D]
  from L [OF H dist fresh init base0 placed0] show ?thesis by simp
qed

text \<open>Each logo of a state in which all are placed, as an object of the canvas.\<close>

lemma placed_logo:
  assumes "logosBase W k {..<k} s" and "logosPlaced W k s" and "i < k"
  shows "\<exists>r p. logoImages s ! i = Some (r, W i) \<and> r \<in> set (cv_objects s)
           \<and> heap s ! r = FabricImage p \<and> im_width p * im_scale p = W i
           \<and> im_left p = Some (logoEdge W k i + W i / 2) \<and> im_top p = Some 100
           \<and> im_originX p = Some OriginCenter \<and> im_originY p = Some OriginTop"
proof -
  from assms(1,3) obtain r p where b: "logoImages s ! i = Some (r, W i)"
    "r \<in> set (cv_objects s)" "heap s ! r = FabricImage p" "im_width p * im_scale p = W i"
    unfolding logosBase_def by blast
  from assms(2,3) obtain r' p' where pl: "logoImages s ! i = Some (r', W i)"
    "heap s ! r' = FabricImage p'"
    "im_left p' = Some (logoEdge W k i + W i / 2)" "im_top p' = Some 100"
    "im_originX p' = Some OriginCenter" "im_originY p' = Some OriginTop"
    unfolding logosPlaced_def by blast
  have "r' = r" using b(1) pl(1) by simp
  then have "p' = p" using b(3) pl(2) by simp
  then show ?thesis using b pl by blast
qed

text \<open>
  The value of the handler's \<open>totalWidth\<close> over a complete \<open>logoImages\<close>: the widths
  added one after the other, then the spacings.
\<close>

lemma totalWidth_complete:
  assumes "logosBase W k {..<k} s"
  shows "totalWidth (logoImages s) k = groupWidth W k"
proof -
  have le: "length (logoImages s) \<le> k"
    and ent: "\<forall>j\<in>{..<k}. j < length (logoImages s)
            \<and> (\<exists>r p. logoImages s ! j = Some (r, W j) \<and> r < length (heap s)
                  \<and> r \<in> set (cv_objects s) \<and> heap s ! r = FabricImage p
                  \<and> im_width p * im_scale p = W j)"
    using assms by (simp_all add: logosBase_def)
  define es where "es = map (\<lambda>i. the (logoImages s ! i)) [0..<k]"
  have len: "length (logoImages s) = k"
  proof (cases k)
    case 0
    then show ?thesis using le by simp
  next
    case (Suc n)
    then have "n < length (logoImages s)" using ent by simp
    then show ?thesis using le Suc by simp
  qed
  have les: "length es = k" by (simp add: es_def)
  have es_nth: "logoImages s ! j = Some (es ! j) \<and> snd (es ! j) = W j" if "j < k" for j
  proof -
    from ent that obtain r where "logoImages s ! j = Some (r, W j)" by auto
    then show ?thesis using that by (simp add: es_def)
  qed
  have L: "logoImages s = map Some es"
    by (rule nth_equalityI) (simp_all add: len les es_nth)
  have ws: "map snd es = map W [0..<k]"
    by (rule nth_equalityI) (simp_all add: les es_nth)
  have "foldl (\<lambda>a e. a + snd e) 0 es = foldl (\<lambda>a i. a + W i) 0 [0..<k]"
    using foldl_widths [OF ws order_refl, of "(+)" 0] les by simp
  then show ?thesis
    by (simp add: totalWidth_def groupWidth_def L sumWidths_full)
qed

text \<open>
  C2, as amended: when the descriptor has k logo URLs and every one of them has loaded,
  then for every order of the completions so far (of the logos and of any other loads of
  the callback) the k logos are on the canvas, logo i with its scaled width \<open>W i\<close>, top
  100, origin centre and top, and its centre at \<open>currentX\<close> plus half its width, as the
  handler computes them: \<open>totalWidth\<close> is the scaled widths added one after the other to
  0, plus 30 times (k - 1); \<open>currentX\<close> is (1280 - \<open>totalWidth\<close>) / 2 - 20 for the first
  logo, and for each next logo the previous \<open>currentX\<close> plus the sum of the previous
  logo's width and 30. Every equation is between a value of the final state and the
  expression the handler evaluates for it, operation by operation.
\<close>

theorem logos_laid_out:
  assumes "wf_state s0" and "logoUrls ic = Some us" and "us \<noteq> []"
    and "distinct (map fst sched)" and "set (map fst sched) \<subseteq> set (loads ic)"
    and "\<forall>i<length us. (LogoLoad i, Some (imgs i)) \<in> set sched"
  shows "(\<exists>refs. length refs = length us \<and> distinct refs
          \<and> set refs \<subseteq> set (cv_objects (settle ic sched (initPass ic s0)))
          \<and> (\<forall>i<length us. \<exists>p.
                heap (settle ic sched (initPass ic s0)) ! (refs ! i) = FabricImage p
              \<and> im_width p * im_scale p = scaledWidths ic imgs i
              \<and> im_left p = Some (logoEdge (scaledWidths ic imgs) (length us) i
                                   + scaledWidths ic imgs i / 2)
              \<and> im_top p = Some 100
              \<and> im_originX p = Some OriginCenter \<and> im_originY p = Some OriginTop))
       \<and> totalWidth (logoImages (settle ic sched (initPass ic s0))) (length us)
           = groupWidth (scaledWidths ic imgs) (length us)
       \<and> groupWidth (scaledWidths ic imgs) (length us)
           = foldl (\<lambda>acc i. acc + scaledWidths ic imgs i) 0 [0..<length us]
             + (of_nat (length us) - 1) * 30
       \<and> logoEdge (scaledWidths ic imgs) (length us) 0
           = (1280 - groupWidth (scaledWidths ic imgs) (length us)) / 2 - 20
       \<and> (\<forall>i. logoEdge (scaledWidths ic imgs) (length us) (Suc i)
              = logoEdge (scaledWidths ic imgs) (length us) i + (scaledWidths ic imgs i + 30))"
proof -
  let ?k = "length us"
  let ?W = "scaledWidths ic imgs"
  let ?fin = "settle ic sched (initPass ic s0)"
  from logos_all_placed [OF assms]
  have fin: "logosBase ?W ?k {..<?k} ?fin" "logosPlaced ?W ?k ?fin"
    by simp_all
  define refs where "refs = map (\<lambda>i. fst (the (logoImages ?fin ! i))) [0..<?k]"
  have obj: "refs ! i \<in> set (cv_objects ?fin)
      \<and> (\<exists>p. heap ?fin ! (refs ! i) = FabricImage p
              \<and> im_width p * im_scale p = ?W i
              \<and> im_left p = Some (logoEdge ?W ?k i + ?W i / 2) \<and> im_top p = Some 100
              \<and> im_originX p = Some OriginCenter \<and> im_originY p = Some OriginTop)"
    if i: "i < ?k" for i
  proof -
    from placed_logo [OF fin i] obtain r p where b: "logoImages ?fin ! i = Some (r, ?W i)"
      "r \<in> set (cv_objects ?fin)" "heap ?fin ! r = FabricImage p" "im_width p * im_scale p = ?W i"
      "im_left p = Some (logoEdge ?W ?k i + ?W i / 2)" "im_top p = Some 100"
      "im_originX p = Some OriginCenter" "im_originY p = Some OriginTop"
      by blast
    have "refs ! i = r" using i b(1) by (simp add: refs_def)
    then show ?thesis using b by simp
  qed
  have dr: "distinct refs"
    unfolding distinct_conv_nth
  proof (intro allI impI)
    fix a b assume ab: "a < length refs" "b < length refs" "a \<noteq> b"
    then have "fst (the (logoImages ?fin ! a)) \<noteq> fst (the (logoImages ?fin ! b))"
      using fin(1) unfolding logosBase_def by (simp add: refs_def)
    then show "refs ! a \<noteq> refs ! b" using ab by (simp add: refs_def)
  qed
  have sub: "set refs \<subseteq> set (cv_objects ?fin)"
  proof
    fix r assume "r \<in> set refs"
    then obtain i where "i < ?k" "r = refs ! i"
      by (auto simp: in_set_conv_nth refs_def)
    with obj show "r \<in> set (cv_objects ?fin)" by blast
  qed
  have A: "\<exists>refs. length refs = ?k \<and> distinct refs
          \<and> set refs \<subseteq> set (cv_objects ?fin)
          \<and> (\<forall>i<?k. \<exists>p.
                heap ?fin ! (refs ! i) = FabricImage p
              \<and> im_width p * im_scale p = ?W i
              \<and> im_left p = Some (logoEdge ?W ?k i + ?W i / 2) \<and> im_top p = Some 100
              \<and> im_originX p = Some OriginCenter \<and> im_originY p = Some OriginTop)"
    using dr sub obj by (intro exI [of _ refs]) (simp add: refs_def)
  have T: "totalWidth (logoImages ?fin) ?k = groupWidth ?W ?k"
    using fin(1) by (rule totalWidth_complete)
  have B: "groupWidth ?W ?k = foldl (\<lambda>acc i. acc + ?W i) 0 [0..<?k] + (of_nat ?k - 1) * 30"
    "logoEdge ?W ?k 0 = (1280 - groupWidth ?W ?k) / 2 - 20"
    "\<forall>i. logoEdge ?W ?k (Suc i) = logoEdge ?W ?k i + (?W i + 30)"
    by (simp_all add: logoEdge_def groupStart_def groupWidth_def THUMBNAIL_WIDTH_def)
  from A T B show ?thesis by blast
qed

lemma tab4_widths:
  "scaledWidths tab4 (\<lambda>i. logo200x100) 0 = 285 / 2"
  "scaledWidths tab4 (\<lambda>i. logo200x100) (Suc 0) = 375 / 2"
  by code_simp+

theorem logos_laid_out_witness:
  "wf_state (new_Canvas ''#0066CC'')
   \<and> logoUrls tab4 = Some [''/barako.png'', ''/APA.png'']
   \<and> settles tab4 tab4Schedule
   \<and> (LogoLoad 0, Some logo200x100) \<in> set tab4Schedule
   \<and> (LogoLoad 1, Some logo200x100) \<in> set tab4Schedule
   \<and> logoImages (settle tab4 tab4Schedule (initPass tab4 (new_Canvas ''#0066CC'')))
       = [Some (3, 285 / 2), Some (2, 375 / 2)]
   \<and> groupWidth (scaledWidths tab4 (\<lambda>i. logo200x100)) 2 = 360
   \<and> logoEdge (scaledWidths tab4 (\<lambda>i. logo200x100)) 2 0 = 440
   \<and> logoEdge (scaledWidths tab4 (\<lambda>i. logo200x100)) 2 1 + 375 / 2 = 800"
proof -
  have st: "settles tab4 tab4Schedule" by code_simp
  have h: "wf_state (new_Canvas ''#0066CC'')"
    "logoUrls tab4 = Some [''/barako.png'', ''/APA.png'']" "[''/barako.png'', ''/APA.png''] \<noteq> []"
    "distinct (map fst tab4Schedule)" "set (map fst tab4Schedule) \<subseteq> set (loads tab4)"
    using st by (simp_all add: settles_def wf_new_Canvas tab4_def noContent_def)
  have m: "(LogoLoad 0, Some logo200x100) \<in> set tab4Schedule"
    "(LogoLoad 1, Some logo200x100) \<in> set tab4Schedule"
    by code_simp+
  then have a: "\<forall>i<length [''/barako.png'', ''/APA.png''].
      (LogoLoad i, Some ((\<lambda>i. logo200x100) i)) \<in> set tab4Schedule"
    by (simp add: less_Suc_eq)
  have e: "logoImages (settle tab4 tab4Schedule (initPass tab4 (new_Canvas ''#0066CC'')))
       = [Some (3, 285 / 2), Some (2, 375 / 2)]"
    by code_simp
  from logos_laid_out [OF h a] show ?thesis
    using h st m e tab4_widths by (simp add: numeral_2_eq_2)
qed

text \<open>
  C2, as stated, fails for the edges: tab 4's two logos, 142.5 and 187.5 wide, make a group
  360 wide that runs from 440 to 800, not from (1280 - 360) / 2 = 460 to
  (1280 + 360) / 2 = 820.
\<close>

theorem logos_group_left_of_centre:
  "hasLogoUrls tab4 \<and> settles tab4 tab4Schedule
   \<and> logoImages (settle tab4 tab4Schedule (initPass tab4 (new_Canvas ''#0066CC'')))
       = [Some (3, 285 / 2), Some (2, 375 / 2)]
   \<and> heap (settle tab4 tab4Schedule (initPass tab4 (new_Canvas ''#0066CC''))) ! 3
       = FabricImage \<lparr>im_width = 200, im_height = 100, im_scale = 57 / 80,
                       im_left = Some (2045 / 4), im_top = Some 100,
                       im_originX = Some OriginCenter, im_originY = Some OriginTop,
                       im_stroke = None, im_strokeWidth = None,
                       im_selectable = None, im_evented = None\<rparr>
   \<and> heap (settle tab4 tab4Schedule (initPass tab4 (new_Canvas ''#0066CC''))) ! 2
       = FabricImage \<lparr>im_width = 200, im_height = 100, im_scale = 15 / 16,
                       im_left = Some (2825 / 4), im_top = Some 100,
                       im_originX = Some OriginCenter, im_originY = Some OriginTop,
                       im_stroke = None, im_strokeWidth = None,
                       im_selectable = None, im_evented = None\<rparr>
   \<and> (285 / 2 + 375 / 2 + 30 * (2 - 1) = (360 :: rat))
   \<and> (2045 / 4 - (285 / 2) / 2 = (440 :: rat))
   \<and> (2825 / 4 + (375 / 2) / 2 = (800 :: rat))
   \<and> (440 :: rat) \<noteq> (1280 - 360) / 2
   \<and> (800 :: rat) \<noteq> (1280 + 360) / 2"
  by code_simp

section \<open>The centre line\<close>




section \<open>What exact arithmetic adds to the layout of several logos\<close>

text \<open>
  The rationals of this development obey the laws of exact arithmetic; the binary64
  numbers of the running code obey them up to rounding only. What is stated of the
  layout above uses none of these laws. With them, \<open>groupWidth\<close> is the sum of the
  widths and the spacings, the logos follow each other at a distance of 30, and the group
  of \<open>k\<close> logos spans from (1280 - \<open>groupWidth\<close>) / 2 - 20 to
  (1280 + \<open>groupWidth\<close>) / 2 - 20, with its middle at 620.
\<close>

lemma foldl_sum_exact:
  "foldl (\<lambda>acc i. acc + W i) a [0..<k] = a + (\<Sum>i<k. W i)" for W :: "nat \<Rightarrow> rat"
  by (induction k) simp_all

lemma foldl_edges_exact:
  "foldl (\<lambda>x j. x + (W j + 30)) a [0..<i] = a + (\<Sum>j<i. W j + 30)" for W :: "nat \<Rightarrow> rat"
  by (induction i) simp_all

lemma exact_group_span:
  "groupWidth W k = (\<Sum>i<k. W i) + 30 * (of_nat k - 1)"
  "logoEdge W k i = (1280 - groupWidth W k) / 2 - 20 + (\<Sum>j<i. W j + 30)"
  "logoEdge W (Suc n) n + W n = (1280 + groupWidth W (Suc n)) / 2 - 20"
  "logoEdge W (Suc n) n + W n - logoEdge W (Suc n) 0 = groupWidth W (Suc n)"
  "(logoEdge W (Suc n) 0 + (logoEdge W (Suc n) n + W n)) / 2 = 620"
proof -
  show w: "groupWidth W k = (\<Sum>i<k. W i) + 30 * (of_nat k - 1)" for k
    by (simp add: groupWidth_def foldl_sum_exact)
  show e: "logoEdge W k i = (1280 - groupWidth W k) / 2 - 20 + (\<Sum>j<i. W j + 30)" for k i
    by (simp add: logoEdge_def groupStart_def foldl_edges_exact THUMBNAIL_WIDTH_def)
  have s: "(\<Sum>j<n. W j + 30) + W n = groupWidth W (Suc n)"
    by (simp add: w sum.distrib algebra_simps)
  have r: "logoEdge W (Suc n) n + W n = (1280 - groupWidth W (Suc n)) / 2 - 20 + groupWidth W (Suc n)"
    unfolding e s [symmetric] by simp
  then show "logoEdge W (Suc n) n + W n = (1280 + groupWidth W (Suc n)) / 2 - 20"
    by (simp add: field_simps)
  have l: "logoEdge W (Suc n) 0 = (1280 - groupWidth W (Suc n)) / 2 - 20"
    by (simp add: e)
  show "logoEdge W (Suc n) n + W n - logoEdge W (Suc n) 0 = groupWidth W (Suc n)"
    unfolding r l by simp
  show "(logoEdge W (Suc n) 0 + (logoEdge W (Suc n) n + W n)) / 2 = 620"
    unfolding r l by (simp add: field_simps)
qed

section \<open>The coordinate space is never resized\<close>

text \<open>
  A canvas is created 1280 by 720, and no operation of the component changes that size:
  what the export theorem assumes of the canvas holds of every canvas the component has.
\<close>

lemma size_addNew [simp]:
  "cv_width (addNew obj s) = cv_width s" "cv_height (addNew obj s) = cv_height s"
  by (simp_all add: addNew_def alloc_def add_def)

lemma size_keepBackgroundBehind [simp]:
  "cv_width (keepBackgroundBehind s) = cv_width s"
  "cv_height (keepBackgroundBehind s) = cv_height s"
  by (simp_all add: keepBackgroundBehind_def sendObjectToBack_def split: option.splits)

lemma size_addTexts [simp]:
  "cv_width (addTexts ts s) = cv_width s" "cv_height (addTexts ts s) = cv_height s"
  by (induction ts arbitrary: s) simp_all

lemma size_createNineBall [simp]:
  "cv_width (createNineBall ic s) = cv_width s" "cv_height (createNineBall ic s) = cv_height s"
  by (simp_all add: createNineBall_def Let_def)

lemma size_initPass [simp]:
  "cv_width (initPass ic s) = cv_width s" "cv_height (initPass ic s) = cv_height s"
  by (simp_all add: initPass_def Let_def split: option.splits)

lemma size_complete [simp]:
  "cv_width (complete ic ev s) = cv_width s" "cv_height (complete ic ev s) = cv_height s"
proof -
  obtain l outcome where ev: "ev = (l, outcome)" by (cases ev)
  have "cv_width (complete ic (l, outcome) s) = cv_width s
      \<and> cv_height (complete ic (l, outcome) s) = cv_height s"
    by (cases l; cases outcome)
      (simp_all add: onBackgroundLoaded_def alloc_def add_def sendObjectToBack_def
        onLogoLoaded_def logoAdded_def layoutLogos_def onSingleLogoLoaded_def
        onYoutubeLoaded_def Let_def)
  then show "cv_width (complete ic ev s) = cv_width s" "cv_height (complete ic ev s) = cv_height s"
    by (simp_all add: ev)
qed

lemma size_settle:
  "cv_width (settle ic sched s) = cv_width s \<and> cv_height (settle ic sched s) = cv_height s"
  by (induction sched arbitrary: s) simp_all

lemma size_interactive:
  "cv_width (handleResize w s) = cv_width s" "cv_height (handleResize w s) = cv_height s"
  "cv_width (handleKeyDown e s) = cv_width s" "cv_height (handleKeyDown e s) = cv_height s"
  "cv_width (deleteActive s) = cv_width s" "cv_height (deleteActive s) = cv_height s"
  "cv_width (clear s) = cv_width s" "cv_height (clear s) = cv_height s"
  by (simp_all add: handleResize_def handleKeyDown_def deleteActive_def remove_def clear_def
      Let_def split: option.splits)

lemma size_new_Canvas:
  "cv_width (new_Canvas c) = THUMBNAIL_WIDTH" "cv_height (new_Canvas c) = THUMBNAIL_HEIGHT"
  by (simp_all add: new_Canvas_def)

end
